theory Spec2Isabelle
  imports Complex_Main "HOL-Library.Log_Nat"
begin

section \<open>Text\<close>

text \<open>
  Python strings are modelled as \<^typ>\<open>string\<close>. A \<^typ>\<open>char\<close> stands for the code
  point of the same number, so the development covers text over the code points 0 to 255;
  the degree sign of the coordinate patterns is code point 176 and the no-break space is
  code point 160. The character classes below are the ones of Python's \<^verbatim>\<open>re\<close> for
  \<^verbatim>\<open>str\<close> patterns, cut to that range.
\<close>

definition cp :: "char \<Rightarrow> nat" where
  "cp c = of_char c"

text \<open>\<^verbatim>\<open>\s\<close> and \<^verbatim>\<open>str.isspace\<close>: tab to carriage return, the four separators
  28 to 31, the space, NEL (133) and the no-break space (160).\<close>

definition is_space :: "char \<Rightarrow> bool" where
  "is_space c = ((9 \<le> cp c \<and> cp c \<le> 13) \<or> (28 \<le> cp c \<and> cp c \<le> 32) \<or> cp c = 133 \<or> cp c = 160)"

text \<open>\<^verbatim>\<open>\d\<close>: the decimal digits.\<close>

definition is_digit :: "char \<Rightarrow> bool" where
  "is_digit c = (48 \<le> cp c \<and> cp c \<le> 57)"

text \<open>\<^verbatim>\<open>[A-Za-z]\<close>.\<close>

definition is_alpha :: "char \<Rightarrow> bool" where
  "is_alpha c = ((65 \<le> cp c \<and> cp c \<le> 90) \<or> (97 \<le> cp c \<and> cp c \<le> 122))"

text \<open>\<^verbatim>\<open>re.sub(p, '', s)\<close> for a pattern \<open>p\<close> that is one character class, or one
  class under \<^verbatim>\<open>+\<close>: every character of the class is deleted.\<close>

definition re_sub_del :: "(char \<Rightarrow> bool) \<Rightarrow> string \<Rightarrow> string" where
  "re_sub_del P s = filter (\<lambda>c. \<not> P c) s"

text \<open>\<^verbatim>\<open>str.strip()\<close>.\<close>

definition strip :: "string \<Rightarrow> string" where
  "strip s = rev (dropWhile is_space (rev (dropWhile is_space s)))"

text \<open>The slice \<^verbatim>\<open>s[a:b]\<close> for \<open>0 \<le> a \<le> b\<close>.\<close>

definition slice :: "nat \<Rightarrow> nat \<Rightarrow> 'a list \<Rightarrow> 'a list" where
  "slice a b xs = take (b - a) (drop a xs)"

section \<open>Floats\<close>

text \<open>
  A Python float is an IEEE 754 binary64 value. \<open>Fin x\<close> is the finite float whose value is
  the rational \<open>x\<close>; the two zeros are one value here (Python compares them equal).
\<close>

datatype pyfloat = Fin rat | PInf | NInf | NaN

definition pow2 :: "int \<Rightarrow> rat" where
  "pow2 e = (if 0 \<le> e then 2 ^ nat e else 1 / 2 ^ nat (- e))"

text \<open>\<open>\<lfloor>log\<^sub>2 x\<rfloor>\<close> for a positive rational.\<close>

definition floor_log2 :: "rat \<Rightarrow> int" where
  "floor_log2 x = (let (a, b) = quotient_of x; e = bitlen a - bitlen b
                   in if pow2 e \<le> x then e else e - 1)"

definition round_half_even :: "rat \<Rightarrow> int" where
  "round_half_even q = (let f = \<lfloor>q\<rfloor>; r = q - of_int f
     in if r < 1 / 2 then f else if 1 / 2 < r then f + 1 else if even f then f else f + 1)"

text \<open>Rounding of a rational to the nearest binary64 value, ties to even: 53 significant
  bits, least exponent -1022 (below it the spacing stays \<open>2\<^sup>-\<^sup>1\<^sup>0\<^sup>7\<^sup>4\<close>), overflow to an
  infinity from \<open>2\<^sup>1\<^sup>0\<^sup>2\<^sup>4\<close> on.\<close>

definition round_double :: "rat \<Rightarrow> pyfloat" where
  "round_double x =
     (if x = 0 then Fin 0
      else let a = \<bar>x\<bar>;
               e = max (floor_log2 a) (- 1022);
               ulp = pow2 (e - 52);
               n = round_half_even (a / ulp)
           in if 1024 \<le> e \<or> (e = 1023 \<and> n = 2 ^ 53) then (if 0 < x then PInf else NInf)
              else Fin (if 0 < x then of_int n * ulp else - (of_int n * ulp)))"

text \<open>\<^verbatim>\<open>a + b\<close>, \<^verbatim>\<open>a / b\<close>, \<^verbatim>\<open>-a\<close> and \<^verbatim>\<open>a <= b\<close> on floats. The division is only used with
  the divisors 60 and 3600; a zero divisor is Python's ZeroDivisionError and does not occur.\<close>

fun fadd :: "pyfloat \<Rightarrow> pyfloat \<Rightarrow> pyfloat" where
  "fadd (Fin x) (Fin y) = round_double (x + y)"
| "fadd NaN _ = NaN"
| "fadd _ NaN = NaN"
| "fadd PInf NInf = NaN"
| "fadd NInf PInf = NaN"
| "fadd PInf _ = PInf"
| "fadd NInf _ = NInf"
| "fadd _ PInf = PInf"
| "fadd _ NInf = NInf"

fun fdiv_pos :: "pyfloat \<Rightarrow> rat \<Rightarrow> pyfloat" where
  "fdiv_pos (Fin x) d = round_double (x / d)"
| "fdiv_pos v d = v"

fun fneg :: "pyfloat \<Rightarrow> pyfloat" where
  "fneg (Fin x) = Fin (- x)"
| "fneg PInf = NInf"
| "fneg NInf = PInf"
| "fneg NaN = NaN"

fun fle :: "pyfloat \<Rightarrow> pyfloat \<Rightarrow> bool" where
  "fle (Fin x) (Fin y) = (x \<le> y)"
| "fle NaN _ = False"
| "fle _ NaN = False"
| "fle NInf _ = True"
| "fle (Fin x) PInf = True"
| "fle PInf PInf = True"
| "fle (Fin x) NInf = False"
| "fle PInf (Fin y) = False"
| "fle PInf NInf = False"

text \<open>\<^verbatim>\<open>round(x, 7)\<close>: the exact value is rounded to seven decimals, ties to even, and the
  decimal is rounded to the nearest float; infinities and NaN are returned as they are.\<close>

fun round7 :: "pyfloat \<Rightarrow> pyfloat" where
  "round7 (Fin x) = round_double (of_int (round_half_even (x * 10 ^ 7)) / 10 ^ 7)"
| "round7 v = v"

text \<open>The exceptions that the operations modelled below can raise.\<close>

datatype py_error = ValueError | TypeError | AttributeError

text \<open>The value of a string of decimal digits.\<close>

definition dec_value :: "string \<Rightarrow> int" where
  "dec_value s = foldl (\<lambda>a c. 10 * a + (of_char c - 48)) 0 s"

text \<open>\<^verbatim>\<open>float(s)\<close> for a string of digits and dots, which is what reaches it in this program
  (the text of the groups \<^verbatim>\<open>\d+\<close>, \<^verbatim>\<open>[\d.]+\<close>, \<^verbatim>\<open>\d{1,3}\.\d+\<close>, and of \<^verbatim>\<open>[\d,]+\<close> with the
  commas removed): digits with at most one dot and at least one digit give the nearest
  float, anything else is a ValueError, here \<open>None\<close>.\<close>

definition py_float :: "string \<Rightarrow> pyfloat option" where
  "py_float s =
     (let ip = takeWhile is_digit s; r = dropWhile is_digit s in
      if r = [] then (if ip = [] then None else Some (round_double (of_int (dec_value ip))))
      else if hd r = CHR ''.'' \<and> list_all is_digit (tl r) \<and> (ip \<noteq> [] \<or> tl r \<noteq> [])
      then Some (round_double (of_int (dec_value ip) + of_int (dec_value (tl r)) / 10 ^ length (tl r)))
      else None)"

text \<open>\<^verbatim>\<open>int(s)\<close>: a non-empty string of at most 4300 digits gives its value. A longer one
  is a ValueError: the interpreter limits the conversion of a string to an integer to
  \<^verbatim>\<open>sys.int_info.default_max_str_digits\<close> digits, which is 4300, leading zeros counted,
  and the program does not change the limit. Every other string is taken as a ValueError,
  which is more than Python raises (it accepts a sign and blanks), so that a string proved
  not to raise here does not raise in Python.\<close>

definition py_int :: "string \<Rightarrow> py_error + int" where
  "py_int s =
     (if s \<noteq> [] \<and> list_all is_digit s \<and> length s \<le> 4300 then Inr (dec_value s)
      else Inl ValueError)"

section \<open>Regular expressions\<close>

text \<open>
  The patterns of the program are values of \<open>rx\<close>, and \<open>rx_m\<close> is a backtracking matcher
  with the semantics of Python's \<^verbatim>\<open>re\<close>: it returns every way the pattern matches at the
  current position, in the order in which backtracking tries them, so that the first
  element is the match that \<^verbatim>\<open>re\<close> reports. Repetition is over character classes, which
  is all the patterns use, apart from optional groups (\<open>Opt\<close>).
  Under \<^verbatim>\<open>re.I\<close> a character matches a class item when it or its other case does; the
  letters of the patterns are ASCII, so only ASCII case is folded.
\<close>

definition is_upper :: "char \<Rightarrow> bool" where
  "is_upper c = (65 \<le> cp c \<and> cp c \<le> 90)"

definition is_lower :: "char \<Rightarrow> bool" where
  "is_lower c = (97 \<le> cp c \<and> cp c \<le> 122)"

definition to_lower :: "char \<Rightarrow> char" where
  "to_lower c = (if is_upper c then char_of (cp c + 32) else c)"

definition to_upper :: "char \<Rightarrow> char" where
  "to_upper c = (if is_lower c then char_of (cp c - 32) else c)"

text \<open>\<^verbatim>\<open>\w\<close> on the code points 0 to 255: letters, digits and other numeric characters,
  and the underscore.\<close>

definition is_word :: "char \<Rightarrow> bool" where
  "is_word c = (is_digit c \<or> is_upper c \<or> is_lower c \<or> cp c = 95
     \<or> cp c \<in> {170, 178, 179, 181, 185, 186, 188, 189, 190}
     \<or> (192 \<le> cp c \<and> cp c \<noteq> 215 \<and> cp c \<noteq> 247))"

datatype citem = Ch char | Rng char char | Dig | Spc

datatype ccls = Pos "citem list" | Neg "citem list"

fun item_match :: "citem \<Rightarrow> char \<Rightarrow> bool" where
  "item_match (Ch a) c = (c = a)"
| "item_match (Rng a b) c = (cp a \<le> cp c \<and> cp c \<le> cp b)"
| "item_match Dig c = is_digit c"
| "item_match Spc c = is_space c"

definition items_match :: "bool \<Rightarrow> citem list \<Rightarrow> char \<Rightarrow> bool" where
  "items_match ic its c =
     list_ex (\<lambda>it. item_match it c
        \<or> (ic \<and> (item_match it (to_lower c) \<or> item_match it (to_upper c)))) its"

fun cls_match :: "bool \<Rightarrow> ccls \<Rightarrow> char \<Rightarrow> bool" where
  "cls_match ic (Pos its) c = items_match ic its c"
| "cls_match ic (Neg its) c = (\<not> items_match ic its c)"

text \<open>\<open>Rep c lo hi\<close> is the greedy \<^verbatim>\<open>c{lo,hi}\<close> and \<open>RepLazy\<close> the lazy \<^verbatim>\<open>c{lo,hi}?\<close>, with
  \<open>None\<close> for no upper bound; \<open>Opt r\<close> is \<^verbatim>\<open>(?:r)?\<close>; \<open>Grp n r\<close> is the capturing group \<open>n\<close>;
  \<open>Bol\<close>, \<open>Eol\<close> and \<open>Wb\<close> are \<^verbatim>\<open>^\<close>, \<^verbatim>\<open>$\<close> and \<^verbatim>\<open>\b\<close>.\<close>

datatype rx = Eps | Cls ccls | Seq rx rx | Alt rx rx | Opt rx | Grp nat rx
  | Rep ccls nat "nat option" | RepLazy ccls nat "nat option" | Bol | Eol | Wb

text \<open>The state of a match: the character before the position (\<open>None\<close> at the start of
  the string), the text from the position on, and the groups captured so far, latest
  first.\<close>

record mstate =
  prev :: "char option"
  rest :: string
  caps :: "(nat \<times> string) list"

definition advance :: "nat \<Rightarrow> mstate \<Rightarrow> mstate" where
  "advance j s =
     (if j = 0 then s else s\<lparr>prev := Some (rest s ! (j - 1)), rest := drop j (rest s)\<rparr>)"

definition run_len :: "bool \<Rightarrow> ccls \<Rightarrow> nat option \<Rightarrow> string \<Rightarrow> nat" where
  "run_len ic c hi xs =
     (let k = length (takeWhile (cls_match ic c) xs)
      in case hi of None \<Rightarrow> k | Some h \<Rightarrow> min h k)"

definition at_word_boundary :: "mstate \<Rightarrow> bool" where
  "at_word_boundary s =
     ((case prev s of None \<Rightarrow> False | Some p \<Rightarrow> is_word p)
      \<noteq> (case rest s of [] \<Rightarrow> False | x # _ \<Rightarrow> is_word x))"

text \<open>The flags are \<open>ic\<close> for \<^verbatim>\<open>re.I\<close> and \<open>ml\<close> for \<^verbatim>\<open>re.M\<close>.\<close>

fun rx_m :: "bool \<Rightarrow> bool \<Rightarrow> rx \<Rightarrow> mstate \<Rightarrow> mstate list" where
  "rx_m ic ml Eps s = [s]"
| "rx_m ic ml (Cls c) s =
     (case rest s of
        [] \<Rightarrow> []
      | x # xs \<Rightarrow> if cls_match ic c x then [s\<lparr>prev := Some x, rest := xs\<rparr>] else [])"
| "rx_m ic ml (Seq a b) s = concat (map (rx_m ic ml b) (rx_m ic ml a s))"
| "rx_m ic ml (Alt a b) s = rx_m ic ml a s @ rx_m ic ml b s"
| "rx_m ic ml (Opt a) s = rx_m ic ml a s @ [s]"
| "rx_m ic ml (Grp n a) s =
     map (\<lambda>t. t\<lparr>caps := (n, take (length (rest s) - length (rest t)) (rest s)) # caps t\<rparr>)
       (rx_m ic ml a s)"
| "rx_m ic ml (Rep c lo hi) s =
     map (\<lambda>j. advance j s) (rev [lo..<Suc (run_len ic c hi (rest s))])"
| "rx_m ic ml (RepLazy c lo hi) s =
     map (\<lambda>j. advance j s) [lo..<Suc (run_len ic c hi (rest s))]"
| "rx_m ic ml Bol s = (if prev s = None \<or> (ml \<and> prev s = Some CHR 0x0A) then [s] else [])"
| "rx_m ic ml Eol s =
     (if rest s = [] \<or> (ml \<and> hd (rest s) = CHR 0x0A) \<or> (\<not> ml \<and> rest s = [CHR 0x0A])
      then [s] else [])"
| "rx_m ic ml Wb s = (if at_word_boundary s then [s] else [])"

text \<open>A literal string, and the concatenation of a list of patterns.\<close>

fun lit :: "string \<Rightarrow> rx" where
  "lit [] = Eps"
| "lit [c] = Cls (Pos [Ch c])"
| "lit (c # cs) = Seq (Cls (Pos [Ch c])) (lit cs)"

fun seqs :: "rx list \<Rightarrow> rx" where
  "seqs [] = Eps"
| "seqs [r] = r"
| "seqs (r # rs) = Seq r (seqs rs)"

text \<open>The match at one position, \<^verbatim>\<open>pattern.match(s)\<close> and \<^verbatim>\<open>pattern.search(s)\<close>.\<close>

definition re_match_at :: "bool \<Rightarrow> bool \<Rightarrow> rx \<Rightarrow> char option \<Rightarrow> string \<Rightarrow> mstate option" where
  "re_match_at ic ml r p xs =
     (case rx_m ic ml r \<lparr>prev = p, rest = xs, caps = []\<rparr> of [] \<Rightarrow> None | t # _ \<Rightarrow> Some t)"

definition re_match :: "bool \<Rightarrow> bool \<Rightarrow> rx \<Rightarrow> string \<Rightarrow> mstate option" where
  "re_match ic ml r xs = re_match_at ic ml r None xs"

fun search_from :: "bool \<Rightarrow> bool \<Rightarrow> rx \<Rightarrow> char option \<Rightarrow> string \<Rightarrow> mstate option" where
  "search_from ic ml r p [] = re_match_at ic ml r p []"
| "search_from ic ml r p (x # xs) =
     (case re_match_at ic ml r p (x # xs) of
        Some t \<Rightarrow> Some t
      | None \<Rightarrow> search_from ic ml r (Some x) xs)"

definition re_search :: "bool \<Rightarrow> bool \<Rightarrow> rx \<Rightarrow> string \<Rightarrow> mstate option" where
  "re_search ic ml r xs = search_from ic ml r None xs"

text \<open>\<^verbatim>\<open>m.group(n)\<close>: \<open>None\<close> for a group that took no part in the match.\<close>

definition grp :: "mstate \<Rightarrow> nat \<Rightarrow> string option" where
  "grp t n = map_of (caps t) n"

definition ws0 :: rx where "ws0 = Rep (Pos [Spc]) 0 None"

definition ws1 :: rx where "ws1 = Rep (Pos [Spc]) 1 None"

definition digs1 :: rx where "digs1 = Rep (Pos [Dig]) 1 None"

definition letter :: "citem list" where
  "letter = [Rng CHR ''A'' CHR ''Z'', Rng CHR ''a'' CHR ''z'']"

section \<open>API normalisation\<close>

text \<open>\<^verbatim>\<open>_normalize_api\<close>. The result \<open>None\<close> is Python's \<^verbatim>\<open>None\<close>.\<close>

definition normalize_api :: "string \<Rightarrow> string option" where
  "normalize_api raw =
     (let candidate = strip (re_sub_del is_space raw) in
      if list_ex is_alpha candidate then None
      else
        let digits = re_sub_del (\<lambda>c. \<not> is_digit c) raw in
        if length digits < 8 then None
        else if length digits = 14 then
          Some (slice 0 2 digits @ ''-'' @ slice 2 5 digits @ ''-'' @ slice 5 10 digits
                @ ''-'' @ slice 10 12 digits @ ''-'' @ drop 12 digits)
        else if length digits = 10 then
          Some (slice 0 2 digits @ ''-'' @ slice 2 5 digits @ ''-'' @ slice 5 10 digits)
        else Some candidate)"

text \<open>The two values the claims speak of: the whitespace-stripped candidate and the
  digit sequence of a raw string.\<close>

definition api_candidate :: "string \<Rightarrow> string" where
  "api_candidate raw = strip (re_sub_del is_space raw)"

definition api_digits :: "string \<Rightarrow> string" where
  "api_digits raw = re_sub_del (\<lambda>c. \<not> is_digit c) raw"

section \<open>The wells table and the upsert\<close>

text \<open>A row of the table \<^verbatim>\<open>wells\<close> of the DDL. \<open>None\<close> is SQL's NULL. The primary
  key is the text that \<^verbatim>\<open>process_json\<close> binds, never NULL.\<close>

record well =
  api_number :: string
  well_name :: "string option"
  well_number :: "string option"
  operator :: "string option"
  county :: "string option"
  state :: "string option"
  shl_desc :: "string option"
  latitude :: "pyfloat option"
  longitude :: "pyfloat option"
  datum :: "string option"
  pdf_filename :: "string option"

text \<open>SQLite's \<^verbatim>\<open>LENGTH\<close> of a text value: the characters before the first NUL; of NULL
  it is NULL.\<close>

definition text_length :: "string \<Rightarrow> nat" where
  "text_length s = length (takeWhile (\<lambda>c. cp c \<noteq> 0) s)"

definition sql_length :: "string option \<Rightarrow> nat option" where
  "sql_length v = map_option text_length v"

text \<open>\<^verbatim>\<open>COALESCE(a, b)\<close>.\<close>

definition coalesce :: "'a option \<Rightarrow> 'a option \<Rightarrow> 'a option" where
  "coalesce a b = (case a of Some x \<Rightarrow> Some x | None \<Rightarrow> b)"

text \<open>\<^verbatim>\<open>a > b\<close> in SQL is NULL when an operand is NULL, and a \<^verbatim>\<open>CASE WHEN\<close> takes its
  \<^verbatim>\<open>ELSE\<close> branch on NULL: the comparison is true only for two values.\<close>

definition sql_gt_true :: "nat option \<Rightarrow> nat option \<Rightarrow> bool" where
  "sql_gt_true a b = (case (a, b) of (Some x, Some y) \<Rightarrow> x > y | _ \<Rightarrow> False)"

text \<open>The \<^verbatim>\<open>DO UPDATE SET\<close> clause of the statement in \<^verbatim>\<open>process_json\<close>: \<open>w\<close> is the
  stored row (\<^verbatim>\<open>wells\<close>), \<open>e\<close> the incoming one (\<^verbatim>\<open>excluded\<close>). The columns the clause
  does not name (\<^verbatim>\<open>api_number\<close>, \<^verbatim>\<open>state\<close>, \<^verbatim>\<open>pdf_filename\<close>) stay as stored.\<close>

definition do_update :: "well \<Rightarrow> well \<Rightarrow> well" where
  "do_update w e = w\<lparr>
     well_name := (if sql_gt_true (sql_length (well_name e))
                        (sql_length (coalesce (well_name w) (Some '''')))
                   then well_name e else well_name w),
     well_number := coalesce (well_number w) (well_number e),
     operator := coalesce (operator w) (operator e),
     county := coalesce (county w) (county e),
     shl_desc := coalesce (shl_desc w) (shl_desc e),
     latitude := coalesce (latitude w) (latitude e),
     longitude := coalesce (longitude w) (longitude e),
     datum := coalesce (datum w) (datum e)\<rparr>"

text \<open>The table is the list of its rows; the primary key makes the keys distinct.\<close>

definition lookup_well :: "well list \<Rightarrow> string \<Rightarrow> well option" where
  "lookup_well rows k = find (\<lambda>r. api_number r = k) rows"

text \<open>\<^verbatim>\<open>INSERT INTO wells ... ON CONFLICT(api_number) DO UPDATE SET ...\<close>.\<close>

definition upsert_well :: "well list \<Rightarrow> well \<Rightarrow> well list" where
  "upsert_well rows e =
     (if list_ex (\<lambda>r. api_number r = api_number e) rows
      then map (\<lambda>r. if api_number r = api_number e then do_update r e else r) rows
      else rows @ [e])"

section \<open>Coordinate bounds\<close>

text \<open>Lines 133 to 139 of \<^verbatim>\<open>extract_well_row\<close>: the checks on the parsed latitude and
  longitude.\<close>

definition latitude_check :: "pyfloat option \<Rightarrow> pyfloat option" where
  "latitude_check lat =
     (case lat of
        None \<Rightarrow> None
      | Some x \<Rightarrow> if \<not> (fle (Fin 45) x \<and> fle x (Fin 50)) then None else Some x)"

definition longitude_check :: "pyfloat option \<Rightarrow> pyfloat option" where
  "longitude_check lon =
     (case lon of
        None \<Rightarrow> None
      | Some x \<Rightarrow> if fle (Fin 96) x \<and> fle x (Fin 105) then Some (fneg x)
                  else if \<not> (fle (Fin (- 105)) x \<and> fle x (Fin (- 96))) then None
                  else Some x)"

section \<open>The stimulation parser\<close>

text \<open>The patterns \<^verbatim>\<open>_STIM_HDR\<close>, \<^verbatim>\<open>_TREAT_HDR\<close>, \<^verbatim>\<open>_DETAILS\<close>, \<^verbatim>\<open>_STIM_ROW\<close> and
  \<^verbatim>\<open>_TREAT_ROW\<close>.\<close>

definition STIM_HDR :: rx where
  "STIM_HDR = seqs [lit ''Date'', ws1, lit ''Stimulat'']"

definition TREAT_HDR :: rx where
  "TREAT_HDR = seqs [lit ''Type'', ws1, lit ''Treatment'']"

definition DETAILS :: rx where
  "DETAILS = seqs [Bol, lit ''Details'', ws0, Eol]"

definition STIM_ROW :: rx where
  "STIM_ROW = seqs [
     Grp 1 (seqs [Rep (Pos [Dig]) 1 (Some 2), lit ''/'', Rep (Pos [Dig]) 1 (Some 2), lit ''/'',
                  Rep (Pos [Dig]) 4 (Some 4)]),
     ws1,
     Grp 2 (Seq (Cls (Pos letter)) (RepLazy (Pos (letter @ [Ch CHR '' ''])) 1 (Some 30))),
     ws1, Grp 3 digs1, ws1, Grp 4 digs1, ws1, Grp 5 digs1, ws1,
     Grp 6 (Rep (Pos [Dig, Ch CHR '','']) 1 None), ws1,
     Grp 7 (Rep (Pos letter) 1 None)]"

definition TREAT_ROW :: rx where
  "TREAT_ROW = seqs [
     Bol,
     Grp 1 (Seq (Cls (Pos letter)) (RepLazy (Pos (letter @ [Ch CHR '' ''])) 1 (Some 30))),
     ws1, Grp 2 (Rep (Pos [Dig, Ch CHR '','']) 1 None),
     ws1, Grp 3 (Rep (Pos [Dig, Ch CHR '','']) 1 None),
     Opt (Seq ws1 (Grp 4 (Rep (Pos [Dig, Ch CHR ''.'']) 1 None))),
     Opt (Seq ws1 (Grp 5 (Rep (Pos [Dig, Ch CHR ''.'']) 1 None)))]"

definition stim_hdr :: "string \<Rightarrow> bool" where
  "stim_hdr lin = (re_search True False STIM_HDR lin \<noteq> None)"

definition treat_hdr :: "string \<Rightarrow> bool" where
  "treat_hdr lin = (re_search True False TREAT_HDR lin \<noteq> None)"

definition details_line :: "string \<Rightarrow> bool" where
  "details_line lin = (re_search True True DETAILS lin \<noteq> None)"

definition stim_row :: "string \<Rightarrow> mstate option" where
  "stim_row lin = re_search False False STIM_ROW lin"

definition treat_row :: "string \<Rightarrow> mstate option" where
  "treat_row lin = re_match False True TREAT_ROW lin"

text \<open>\<^verbatim>\<open>not lines[i].strip()\<close>.\<close>

definition is_blank :: "string \<Rightarrow> bool" where
  "is_blank lin = (strip lin = [])"

text \<open>\<^verbatim>\<open>str.splitlines()\<close>: the line ends are LF, CR, CR LF, VT, FF, the separators 28 to 30
  and NEL; there is no empty last line.\<close>

definition is_linebreak :: "char \<Rightarrow> bool" where
  "is_linebreak c = (cp c \<in> {10, 11, 12, 13, 28, 29, 30, 133})"

fun splitlines_from :: "string \<Rightarrow> string \<Rightarrow> string list" where
  "splitlines_from cur [] = (if cur = [] then [] else [rev cur])"
| "splitlines_from cur [c] =
     (if is_linebreak c then [rev cur] else [rev (c # cur)])"
| "splitlines_from cur (c # d # cs) =
     (if cp c = 13 \<and> cp d = 10 then rev cur # splitlines_from [] cs
      else if is_linebreak c then rev cur # splitlines_from [] (d # cs)
      else splitlines_from (c # cur) (d # cs))"

definition splitlines :: "string \<Rightarrow> string list" where
  "splitlines s = splitlines_from [] s"

text \<open>\<^verbatim>\<open>_to_float\<close>.\<close>

definition to_float :: "string option \<Rightarrow> pyfloat option" where
  "to_float s =
     (case s of
        None \<Rightarrow> None
      | Some t \<Rightarrow> if t = [] then None else py_float (filter (\<lambda>c. c \<noteq> CHR '','') t))"

text \<open>A record of the parser, with the keys of the dictionary \<^verbatim>\<open>rec\<close>.\<close>

record stimulation =
  date_stimulated :: "string option"
  formation :: string
  top_ft :: "pyfloat option"
  bottom_ft :: "pyfloat option"
  stages :: int
  volume :: "pyfloat option"
  volume_units :: "string option"
  treatment_type :: "string option"
  acid_percent :: "pyfloat option"
  lbs_proppant :: "pyfloat option"
  max_pressure :: "pyfloat option"
  max_rate :: "pyfloat option"
  details :: "string option"

text \<open>The dictionary built from a match of \<^verbatim>\<open>_STIM_ROW\<close> (line 205). \<^verbatim>\<open>.strip()\<close> of a
  missing group is an AttributeError and \<^verbatim>\<open>int\<close> of one a TypeError.\<close>

definition stim_draft :: "mstate \<Rightarrow> py_error + stimulation" where
  "stim_draft sm =
     (case grp sm 2 of
        None \<Rightarrow> Inl AttributeError
      | Some f \<Rightarrow>
         (case grp sm 5 of
            None \<Rightarrow> Inl TypeError
          | Some g \<Rightarrow>
             (case py_int g of
                Inl e \<Rightarrow> Inl e
              | Inr st \<Rightarrow> Inr \<lparr>date_stimulated = grp sm 1, formation = strip f,
                   top_ft = to_float (grp sm 3), bottom_ft = to_float (grp sm 4),
                   stages = st, volume = to_float (grp sm 6), volume_units = grp sm 7,
                   treatment_type = None, acid_percent = None, lbs_proppant = None,
                   max_pressure = None, max_rate = None, details = None\<rparr>)))"

text \<open>Lines 219 to 233: the update of the record from the match \<open>tm\<close> of \<^verbatim>\<open>_TREAT_ROW\<close>,
  if there is one.\<close>

definition treat_update :: "stimulation \<Rightarrow> mstate option \<Rightarrow> py_error + stimulation" where
  "treat_update rec tm =
     (case tm of
        None \<Rightarrow> Inr rec
      | Some m \<Rightarrow>
         (let nums = map (\<lambda>g. to_float (grp m g)) [2, 3, 4, 5];
              non_none = List.map_filter id nums
          in case grp m 1 of
               None \<Rightarrow> Inl AttributeError
             | Some l \<Rightarrow>
                (let rec1 = rec\<lparr>treatment_type := Some (strip l)\<rparr>
                 in Inr (if length non_none = 4
                         then rec1\<lparr>acid_percent := Some (non_none ! 0),
                                  lbs_proppant := Some (non_none ! 1),
                                  max_pressure := Some (non_none ! 2),
                                  max_rate := Some (non_none ! 3)\<rparr>
                         else if length non_none = 3
                         then rec1\<lparr>lbs_proppant := Some (non_none ! 0),
                                  max_pressure := Some (non_none ! 1),
                                  max_rate := Some (non_none ! 2)\<rparr>
                         else if length non_none \<ge> 1
                         then rec1\<lparr>lbs_proppant := Some (non_none ! 0)\<rparr>
                         else rec1))))"

text \<open>The inner loop of lines 209 to 242, on the lines from index \<open>i\<close> on. It returns the
  record, the detail parts and the lines that are left; on a \<^verbatim>\<open>Date Stimulat\<close> header it
  stops without consuming it.\<close>

function body ::
  "stimulation \<Rightarrow> string list \<Rightarrow> bool \<Rightarrow> string list
     \<Rightarrow> py_error + (stimulation \<times> string list \<times> string list)" where
  "body rec parts ind [] = Inr (rec, parts, [])"
| "body rec parts ind (lin # ls) =
     (if stim_hdr lin then Inr (rec, parts, lin # ls)
      else if treat_hdr lin then
        (case dropWhile is_blank ls of
           [] \<Rightarrow> Inr (rec, parts, [])
         | t # ls2 \<Rightarrow>
            (case treat_update rec (treat_row (strip t)) of
               Inl e \<Rightarrow> Inl e
             | Inr rec2 \<Rightarrow> body rec2 parts ind ls2))
      else if details_line lin then body rec parts True ls
      else body rec (if ind \<and> strip lin \<noteq> [] then parts @ [strip lin] else parts) ind ls)"
  by pat_completeness auto
termination
proof (relation "measure (\<lambda>(rec, parts, ind, ls). length ls)")
  fix lin :: string and ls t ls2
  assume "dropWhile is_blank ls = t # ls2"
  then have "length (t # ls2) \<le> length ls"
    by (metis length_dropWhile_le)
  then show "((rec2, parts, ind, ls2), (rec, parts, ind, lin # ls))
      \<in> measure (\<lambda>(rec, parts, ind, ls). length ls)"
    for rec rec2 :: stimulation and parts :: "string list" and ind :: bool
    by simp
qed simp_all

text \<open>\<^verbatim>\<open>'\n'.join(parts)\<close>.\<close>

fun join_lines :: "string list \<Rightarrow> string" where
  "join_lines [] = []"
| "join_lines [p] = p"
| "join_lines (p # ps) = p @ [CHR 0x0A] @ join_lines ps"

text \<open>Lines 243 and 244.\<close>

definition with_details :: "stimulation \<Rightarrow> string list \<Rightarrow> stimulation" where
  "with_details rec parts =
     (if parts \<noteq> [] then rec\<lparr>details := Some (join_lines parts)\<rparr> else rec)"

text \<open>The outer loop of lines 190 to 245, on the lines from index \<open>i\<close> on; the result is
  the list of the records appended from there on.\<close>

function seek :: "string list \<Rightarrow> py_error + stimulation list" where
  "seek [] = Inr []"
| "seek (line # ls) =
     (if \<not> stim_hdr line then seek ls
      else
        (case dropWhile (\<lambda>l. is_blank l \<or> stim_hdr l) ls of
           [] \<Rightarrow> Inr []
         | data_line # ls2 \<Rightarrow>
            (case stim_row data_line of
               None \<Rightarrow> seek ls2
             | Some sm \<Rightarrow>
                (case stim_draft sm of
                   Inl e \<Rightarrow> Inl e
                 | Inr rec \<Rightarrow>
                    (case body rec [] False ls2 of
                       Inl e \<Rightarrow> Inl e
                     | Inr (rec2, parts, ls3) \<Rightarrow>
                        (if length ls3 \<le> length ls2
                         then (case seek ls3 of
                                 Inl e \<Rightarrow> Inl e
                               | Inr rs \<Rightarrow> Inr (with_details rec2 parts # rs))
                         else Inl ValueError))))))"
  by pat_completeness auto
termination
proof (relation "measure length")
  fix line :: string and ls data_line ls2
  assume d: "dropWhile (\<lambda>l. is_blank l \<or> stim_hdr l) ls = data_line # ls2"
  then have l: "length (data_line # ls2) \<le> length ls"
    by (metis length_dropWhile_le)
  then show "(ls2, line # ls) \<in> measure length" by simp
  fix ls3 :: "string list"
  assume "length ls3 \<le> length ls2"
  then show "(ls3, line # ls) \<in> measure length" using l by simp
qed simp_all

text \<open>\<^verbatim>\<open>parse_stimulation\<close>.\<close>

definition parse_stimulation :: "string \<Rightarrow> py_error + stimulation list" where
  "parse_stimulation page_text = seek (splitlines page_text)"

section \<open>Coordinates in degrees, minutes and seconds\<close>

text \<open>The pattern of \<^verbatim>\<open>_dms_to_decimal\<close>: degrees, the degree sign, minutes, an
  apostrophe, seconds and a hemisphere letter. There is no mark after the seconds.\<close>

definition DMS_RX :: rx where
  "DMS_RX = seqs [
     Grp 1 (Rep (Pos [Dig]) 1 (Some 3)), ws0, lit [CHR 0xB0], ws0,
     Grp 2 (Rep (Pos [Dig]) 1 (Some 2)), lit [CHR 0x27], ws0,
     Grp 3 (Rep (Pos [Dig, Ch CHR ''.'']) 1 None), ws0,
     Grp 4 (Cls (Pos [Ch CHR ''N'', Ch CHR ''S'', Ch CHR ''E'', Ch CHR ''W'',
                      Ch CHR ''n'', Ch CHR ''s'', Ch CHR ''e'', Ch CHR ''w'']))]"

text \<open>\<^verbatim>\<open>float(g)\<close> for a group of a match: a missing group is a TypeError, text that is no
  number a ValueError.\<close>

definition float_of_group :: "string option \<Rightarrow> py_error + pyfloat" where
  "float_of_group g =
     (case g of
        None \<Rightarrow> Inl TypeError
      | Some t \<Rightarrow> (case py_float t of None \<Rightarrow> Inl ValueError | Some v \<Rightarrow> Inr v))"

text \<open>\<^verbatim>\<open>_dms_to_decimal\<close>. \<open>Inr None\<close> is the result \<^verbatim>\<open>None\<close> for a string that the pattern
  does not match.\<close>

definition dms_to_decimal :: "string \<Rightarrow> py_error + pyfloat option" where
  "dms_to_decimal dms_str =
     (case re_match False False DMS_RX (strip dms_str) of
        None \<Rightarrow> Inr None
      | Some m \<Rightarrow>
         (case float_of_group (grp m 1) of
            Inl e \<Rightarrow> Inl e
          | Inr deg \<Rightarrow>
             (case float_of_group (grp m 2) of
                Inl e \<Rightarrow> Inl e
              | Inr mins \<Rightarrow>
                 (case float_of_group (grp m 3) of
                    Inl e \<Rightarrow> Inl e
                  | Inr secs \<Rightarrow>
                     (case grp m 4 of
                        None \<Rightarrow> Inl AttributeError
                      | Some direction \<Rightarrow>
                         (let dd = fadd (fadd deg (fdiv_pos mins 60)) (fdiv_pos secs 3600);
                              dd2 = (if map to_upper direction = ''S'' \<or> map to_upper direction = ''W''
                                     then fneg dd else dd)
                          in Inr (Some (round7 dd2))))))))"

text \<open>The two strings of the specification's example, with the mark \<open>"\<close> after the seconds,
  and the same two without it.\<close>

definition dms_marked_N :: string where
  "dms_marked_N = ''47'' @ [CHR 0xB0] @ '' 30'' @ [CHR 0x27] @ '' 0'' @ [CHR 0x22] @ '' N''"

definition dms_marked_W :: string where
  "dms_marked_W = ''101'' @ [CHR 0xB0] @ '' 15'' @ [CHR 0x27] @ '' 0'' @ [CHR 0x22] @ '' W''"

definition dms_plain_N :: string where
  "dms_plain_N = ''47'' @ [CHR 0xB0] @ '' 30'' @ [CHR 0x27] @ '' 0 N''"

definition dms_plain_W :: string where
  "dms_plain_W = ''101'' @ [CHR 0xB0] @ '' 15'' @ [CHR 0x27] @ '' 0 W''"

text \<open>\<open>first_match\<close>: the first way in which a pattern matches at a state, the one that
  \<^verbatim>\<open>re\<close> reports when the rest of the pattern goes through.\<close>

definition first_match :: "bool \<Rightarrow> bool \<Rightarrow> rx \<Rightarrow> mstate \<Rightarrow> mstate \<Rightarrow> bool" where
  "first_match ic ml r s t = (case rx_m ic ml r s of [] \<Rightarrow> False | u # _ \<Rightarrow> u = t)"

text \<open>Whether the capturing group \<open>n\<close> occurs in a pattern.\<close>

fun has_group :: "nat \<Rightarrow> rx \<Rightarrow> bool" where
  "has_group n (Grp m a) = (n = m \<or> has_group n a)"
| "has_group n (Seq a b) = (has_group n a \<or> has_group n b)"
| "has_group n (Alt a b) = (has_group n a \<or> has_group n b)"
| "has_group n (Opt a) = has_group n a"
| "has_group n _ = False"

text \<open>The lines that the outer loop can take as a data line: each line that is neither
  blank nor a header and follows a header with only blank lines and headers in between.
  \<open>seen\<close> tells that such a header has been passed.\<close>

fun data_line_candidates :: "bool \<Rightarrow> string list \<Rightarrow> string list" where
  "data_line_candidates seen [] = []"
| "data_line_candidates seen (l # ls) =
     (if stim_hdr l then data_line_candidates True ls
      else if is_blank l then data_line_candidates seen ls
      else (if seen then [l] else []) @ data_line_candidates False ls)"

text \<open>A line whose stage count \<^verbatim>\<open>int\<close> takes: it is no data row, or the group of the stage
  count has at most 4300 digits.\<close>

definition stages_ok :: "string \<Rightarrow> bool" where
  "stages_ok l =
     (case stim_row l of
        None \<Rightarrow> True
      | Some sm \<Rightarrow> (case grp sm 5 of None \<Rightarrow> True | Some v \<Rightarrow> length v \<le> 4300))"

text \<open>A page with a header line and a data row whose stage count has 4301 digits.\<close>

definition long_row :: string where
  "long_row = ''1/1/2020 Bakken 1 2 '' @ replicate 4301 CHR ''1'' @ '' 5 Barrels''"

definition page_long :: string where
  "page_long = ''Date Stimulated'' @ [CHR 0x0A] @ long_row"














text \<open>Two rows with the same key, the stored one and the incoming one, with the values of
  the merge example of the specification.\<close>

definition stored_example :: well where
  "stored_example = \<lparr>api_number = ''33-053-01234'', well_name = Some ''WELL A'',
     well_number = None, operator = Some ''Acme Oil'', county = None, state = None,
     shl_desc = None, latitude = None, longitude = None, datum = None,
     pdf_filename = None\<rparr>"

definition incoming_example :: well where
  "incoming_example = \<lparr>api_number = ''33-053-01234'', well_name = Some ''WELL A UNIT 2'',
     well_number = Some ''12345'', operator = None, county = Some ''Mckenzie'',
     state = Some ''ND'', shl_desc = None, latitude = Some (Fin 48), longitude = Some (Fin (- 103)),
     datum = Some ''NAD83'', pdf_filename = Some ''W12345.pdf''\<rparr>"

section \<open>Properties\<close>

lemma strip_no_space: "\<not> list_ex is_space s \<Longrightarrow> strip s = s"
proof -
  assume a: "\<not> list_ex is_space s"
  have d: "\<And>t. \<not> list_ex is_space t \<Longrightarrow> dropWhile is_space t = t"
    by (case_tac t) (auto simp: list_ex_iff)
  have "\<not> list_ex is_space (rev s)" using a by (simp add: list_ex_iff)
  then show ?thesis using a by (simp add: strip_def d)
qed

lemma api_candidate_eq: "api_candidate raw = re_sub_del is_space raw"
  unfolding api_candidate_def
  by (rule strip_no_space) (simp add: re_sub_del_def list_ex_iff)

subsection \<open>Characters and slices\<close>

lemma digit_not_alpha: "is_digit c \<Longrightarrow> \<not> is_alpha c"
  by (auto simp: is_digit_def is_alpha_def)

lemma digit_not_space: "is_digit c \<Longrightarrow> \<not> is_space c"
  by (auto simp: is_digit_def is_space_def)

lemma dash_class: "\<not> is_digit CHR ''-''" "\<not> is_alpha CHR ''-''" "\<not> is_space CHR ''-''"
  by (simp_all add: is_digit_def is_alpha_def is_space_def cp_def)

lemma api_digits_all: "list_all is_digit (api_digits raw)"
  by (simp add: api_digits_def re_sub_del_def list_all_iff)

lemma all_digit_slice: "list_all is_digit d \<Longrightarrow> list_all is_digit (slice a b d)"
  by (auto simp: slice_def list_all_iff dest: in_set_takeD in_set_dropD)

lemma all_digit_drop: "list_all is_digit d \<Longrightarrow> list_all is_digit (drop a d)"
  by (auto simp: list_all_iff dest: in_set_dropD)

lemma filter_digits_id: "list_all is_digit d \<Longrightarrow> filter is_digit d = d"
  by (simp add: list_all_iff)

lemma filter_space_digits: "list_all is_digit d \<Longrightarrow> filter (\<lambda>c. \<not> is_space c) d = d"
  by (auto simp: list_all_iff digit_not_space)

lemma no_alpha_digits: "list_all is_digit d \<Longrightarrow> \<not> list_ex is_alpha d"
  by (auto simp: list_all_iff list_ex_iff digit_not_alpha)

lemma slice_drop: "a \<le> b \<Longrightarrow> slice a b d @ drop b d = drop a d"
proof -
  assume "a \<le> b"
  then have "drop b d = drop (b - a) (drop a d)" by simp
  then show ?thesis unfolding slice_def by (simp only: append_take_drop_id)
qed

lemma slices10: "length d = 10 \<Longrightarrow> slice 0 2 d @ slice 2 5 d @ slice 5 10 d = d"
proof -
  assume l: "length d = 10"
  have "slice 5 10 d = slice 5 10 d @ drop 10 d" using l by simp
  then have "slice 5 10 d = drop 5 d" by (simp add: slice_drop)
  then have "slice 2 5 d @ slice 5 10 d = drop 2 d" by (simp add: slice_drop)
  then have "slice 0 2 d @ slice 2 5 d @ slice 5 10 d = drop 0 d" by (simp add: slice_drop)
  then show ?thesis by simp
qed

lemma slices14: "slice 0 2 d @ slice 2 5 d @ slice 5 10 d @ slice 10 12 d @ drop 12 d = d"
proof -
  have "slice 0 2 d @ slice 2 5 d @ slice 5 10 d @ slice 10 12 d @ drop 12 d = drop 0 d"
    by (simp add: slice_drop)
  then show ?thesis by simp
qed

subsection \<open>Groups of a match\<close>

lemma rx_m_keep:
  "\<not> has_group n r \<Longrightarrow> t \<in> set (rx_m ic ml r s) \<Longrightarrow> map_of (caps t) n = map_of (caps s) n"
proof (induction r arbitrary: s t)
  case (Cls c)
  then show ?case by (auto split: list.splits if_splits)
next
  case (Seq a b)
  then show ?case by auto
next
  case (Rep c lo hi)
  then show ?case by (auto simp: advance_def)
next
  case (RepLazy c lo hi)
  then show ?case by (auto simp: advance_def)
qed (auto split: if_splits)

lemma advance_rest: "j \<le> length (rest s) \<Longrightarrow> rest (advance j s) = drop j (rest s)"
  by (simp add: advance_def)

lemma run_len_le: "run_len ic c hi xs \<le> length (takeWhile (cls_match ic c) xs)"
  by (simp add: run_len_def Let_def split: option.splits)

lemma take_run_all:
  assumes "j \<le> run_len ic c hi xs"
  shows "list_all (cls_match ic c) (take j xs)"
proof -
  have "j \<le> length (takeWhile (cls_match ic c) xs)" using assms run_len_le order_trans by blast
  then have "take j xs = take j (takeWhile (cls_match ic c) xs)"
    by (metis append_eq_conv_conj min.absorb2 take_take takeWhile_dropWhile_id min.commute)
  then show ?thesis
    by (metis in_set_takeD list_all_iff set_takeWhileD)
qed

lemma grp_digits:
  assumes "t \<in> set (rx_m False ml (Grp n (Rep (Pos [Dig]) (Suc lo) hi)) s)"
  shows "\<exists>v. map_of (caps t) n = Some v \<and> v \<noteq> [] \<and> list_all is_digit v"
proof -
  from assms obtain j where j: "Suc lo \<le> j" "j \<le> run_len False (Pos [Dig]) hi (rest s)"
    and t: "t = (advance j s)\<lparr>caps := (n, take (length (rest s) - length (rest (advance j s))) (rest s)) # caps (advance j s)\<rparr>"
    by auto
  have jl: "j \<le> length (rest s)"
    using j(2) run_len_le[of False "Pos [Dig]" hi "rest s"] length_takeWhile_le[of "cls_match False (Pos [Dig])" "rest s"] by linarith
  have "length (rest s) - length (rest (advance j s)) = j"
    using jl by (simp add: advance_rest)
  then have c: "map_of (caps t) n = Some (take j (rest s))" using t by simp
  have "list_all (cls_match False (Pos [Dig])) (take j (rest s))" using take_run_all[OF j(2)] .
  then have "list_all is_digit (take j (rest s))"
    by (simp add: list_all_iff items_match_def)
  moreover have "take j (rest s) \<noteq> []" using j(1) jl by auto
  ultimately show ?thesis using c by blast
qed

lemma grp_set: "t \<in> set (rx_m ic ml (Grp n a) s) \<Longrightarrow> map_of (caps t) n \<noteq> None"
  by auto

lemma search_from_mem:
  "search_from ic ml r p xs = Some t \<Longrightarrow> \<exists>s. t \<in> set (rx_m ic ml r s)"
proof -
  have a: "re_match_at ic ml r q ys = Some t \<Longrightarrow> \<exists>s. t \<in> set (rx_m ic ml r s)" for q ys
    by (auto simp: re_match_at_def split: list.splits intro: exI[of _ "\<lparr>prev = q, rest = ys, caps = []\<rparr>"])
  show "search_from ic ml r p xs = Some t \<Longrightarrow> \<exists>s. t \<in> set (rx_m ic ml r s)"
    by (induction xs arbitrary: p) (auto split: option.splits dest: a)
qed

lemma seq_mem: "t \<in> set (rx_m ic ml (Seq a b) s) \<Longrightarrow> \<exists>u \<in> set (rx_m ic ml a s). t \<in> set (rx_m ic ml b u)"
  by auto

lemma seqs_mem:
  "t \<in> set (rx_m ic ml (seqs (r # rs)) s) \<Longrightarrow>
     \<exists>u \<in> set (rx_m ic ml r s). t \<in> set (rx_m ic ml (seqs rs) u)"
  by (cases rs) auto

lemma seqs_split:
  "t \<in> set (rx_m ic ml (seqs (pre @ g # post)) s) \<Longrightarrow>
     \<exists>u v. v \<in> set (rx_m ic ml g u) \<and> t \<in> set (rx_m ic ml (seqs post) v)"
proof (induction pre arbitrary: s)
  case Nil
  then show ?case using seqs_mem[of t ic ml g post s] by auto
next
  case (Cons a pre)
  from Cons.prems obtain u where "t \<in> set (rx_m ic ml (seqs (pre @ g # post)) u)"
    using seqs_mem[of t ic ml a "pre @ g # post" s] by auto
  then show ?case by (rule Cons.IH)
qed

lemma has_group_seqs: "has_group n (seqs rs) = list_ex (has_group n) rs"
  by (induction rs rule: seqs.induct) auto

lemma stim_row_groups:
  assumes "stim_row l = Some sm"
  shows "grp sm 2 \<noteq> None \<and> (\<exists>v. grp sm 5 = Some v \<and> v \<noteq> [] \<and> list_all is_digit v)"
proof -
  from assms obtain s where m: "sm \<in> set (rx_m False False STIM_ROW s)"
    using search_from_mem[of False False STIM_ROW None l sm]
    by (auto simp: stim_row_def re_search_def)
  let ?g1 = "Grp 1 (seqs [Rep (Pos [Dig]) 1 (Some 2), lit ''/'', Rep (Pos [Dig]) 1 (Some 2),
     lit ''/'', Rep (Pos [Dig]) 4 (Some 4)])"
  let ?g2 = "Grp 2 (Seq (Cls (Pos letter)) (RepLazy (Pos (letter @ [Ch CHR '' ''])) 1 (Some 30)))"
  let ?t5 = "[ws1, Grp 6 (Rep (Pos [Dig, Ch CHR '','']) 1 None), ws1, Grp 7 (Rep (Pos letter) 1 None)]"
  let ?t2 = "[ws1, Grp 3 digs1, ws1, Grp 4 digs1, ws1, Grp 5 digs1] @ ?t5"
  have e2: "STIM_ROW = seqs ([?g1, ws1] @ ?g2 # ?t2)" by (simp add: STIM_ROW_def)
  have e5: "STIM_ROW = seqs ([?g1, ws1, ?g2, ws1, Grp 3 digs1, ws1, Grp 4 digs1, ws1] @ Grp 5 digs1 # ?t5)"
    by (simp add: STIM_ROW_def)
  obtain u2 v2 where v2: "v2 \<in> set (rx_m False False ?g2 u2)"
      and r2: "sm \<in> set (rx_m False False (seqs ?t2) v2)"
    using seqs_split[OF m[unfolded e2]] by blast
  have k2: "\<not> has_group 2 (seqs ?t2)"
    by (simp add: has_group_seqs ws1_def digs1_def)
  have g2: "grp sm 2 \<noteq> None"
    using rx_m_keep[OF k2 r2] grp_set[OF v2] by (simp add: grp_def)
  obtain u5 v5 where v5: "v5 \<in> set (rx_m False False (Grp 5 digs1) u5)"
      and r5: "sm \<in> set (rx_m False False (seqs ?t5) v5)"
    using seqs_split[OF m[unfolded e5]] by blast
  have k5: "\<not> has_group 5 (seqs ?t5)"
    by (simp add: has_group_seqs ws1_def)
  have "\<exists>v. map_of (caps v5) 5 = Some v \<and> v \<noteq> [] \<and> list_all is_digit v"
    using grp_digits[of v5 False 5 0 None u5] v5 by (simp add: digs1_def)
  then show ?thesis using g2 rx_m_keep[OF k5 r5] by (simp add: grp_def)
qed

lemma stim_draft_ok:
  "stim_row l = Some sm \<Longrightarrow> stages_ok l \<Longrightarrow> \<exists>rec. stim_draft sm = Inr rec"
  using stim_row_groups[of l sm] by (auto simp: stim_draft_def py_int_def stages_ok_def)

lemma treat_row_group1:
  assumes "treat_row x = Some tm"
  shows "grp tm 1 \<noteq> None"
proof -
  from assms obtain xs where "rx_m False True TREAT_ROW \<lparr>prev = None, rest = x, caps = []\<rparr> = tm # xs"
    by (auto simp: treat_row_def re_match_def re_match_at_def split: list.splits)
  then have "tm \<in> set (rx_m False True TREAT_ROW \<lparr>prev = None, rest = x, caps = []\<rparr>)"
    by simp
  then obtain s where m: "tm \<in> set (rx_m False True TREAT_ROW s)" by blast
  let ?g1 = "Grp 1 (Seq (Cls (Pos letter)) (RepLazy (Pos (letter @ [Ch CHR '' ''])) 1 (Some 30)))"
  let ?t1 = "[ws1, Grp 2 (Rep (Pos [Dig, Ch CHR '','']) 1 None),
     ws1, Grp 3 (Rep (Pos [Dig, Ch CHR '','']) 1 None),
     Opt (Seq ws1 (Grp 4 (Rep (Pos [Dig, Ch CHR ''.'']) 1 None))),
     Opt (Seq ws1 (Grp 5 (Rep (Pos [Dig, Ch CHR ''.'']) 1 None)))]"
  have e1: "TREAT_ROW = seqs ([Bol] @ ?g1 # ?t1)" by (simp add: TREAT_ROW_def)
  obtain u1 v1 where v1: "v1 \<in> set (rx_m False True ?g1 u1)"
      and r1: "tm \<in> set (rx_m False True (seqs ?t1) v1)"
    using seqs_split[OF m[unfolded e1]] by blast
  have k1: "\<not> has_group 1 (seqs ?t1)"
    by (simp add: has_group_seqs ws1_def)
  show ?thesis using rx_m_keep[OF k1 r1] grp_set[OF v1] by (simp add: grp_def)
qed

lemma treat_update_ok: "\<exists>r. treat_update rec (treat_row x) = Inr r"
  using treat_row_group1[of x]
  by (cases "treat_row x") (auto simp: treat_update_def Let_def)

lemma body_ok:
  "\<exists>r p ls3. body rec parts ind ls = Inr (r, p, ls3) \<and> length ls3 \<le> length ls
     \<and> set ls3 \<subseteq> set ls"
proof (induction rec parts ind ls rule: body.induct)
  case (1 rec parts ind)
  then show ?case by simp
next
  case (2 rec parts ind lin ls)
  show ?case
  proof (cases "stim_hdr lin")
    case True
    then show ?thesis by simp
  next
    case nh: False
    show ?thesis
    proof (cases "treat_hdr lin")
      case True
      show ?thesis
      proof (cases "dropWhile is_blank ls")
        case Nil
        show ?thesis using nh True by (simp add: Nil)
      next
        case (Cons t ls2)
        obtain rec2 where u: "treat_update rec (treat_row (strip t)) = Inr rec2"
          using treat_update_ok by blast
        have l: "length (t # ls2) \<le> length ls" by (metis Cons length_dropWhile_le)
        have m: "set (t # ls2) \<subseteq> set ls" by (metis Cons set_dropWhileD subsetI)
        from "2.IH"(1)[OF nh True Cons u] obtain r p ls3 where
          i: "body rec2 parts ind ls2 = Inr (r, p, ls3)" "length ls3 \<le> length ls2"
             "set ls3 \<subseteq> set ls2"
          by blast
        have "set ls3 \<subseteq> set (lin # ls)" using i(3) m by auto
        moreover have "length ls3 \<le> length (lin # ls)" using i(2) l by simp
        moreover have "body rec parts ind (lin # ls) = Inr (r, p, ls3)"
          using nh True Cons u i(1) by simp
        ultimately show ?thesis by blast
      qed
    next
      case nt: False
      show ?thesis
      proof (cases "details_line lin")
        case True
        from "2.IH"(2)[OF nh nt True] show ?thesis using nh nt True by auto
      next
        case False
        from "2.IH"(3)[OF nh nt False] show ?thesis using nh nt False by auto
      qed
    qed
  qed
qed

lemma seek_ok: "list_all stages_ok ls \<Longrightarrow> \<exists>rs. seek ls = Inr rs"
proof (induction ls rule: seek.induct)
  case 1
  then show ?case by simp
next
  case (2 line ls)
  have ok: "list_all stages_ok ls" using "2.prems" by simp
  show ?case
  proof (cases "stim_hdr line")
    case False
    then show ?thesis using "2.IH"(1) ok by simp
  next
    case True
    show ?thesis
    proof (cases "dropWhile (\<lambda>l. is_blank l \<or> stim_hdr l) ls")
      case Nil
      show ?thesis using True by (simp add: Nil)
    next
      case (Cons d ls2)
      have sub: "set (d # ls2) \<subseteq> set ls" by (metis Cons set_dropWhileD subsetI)
      have okd: "stages_ok d" and ok2: "list_all stages_ok ls2"
        using ok sub by (auto simp: list_all_iff)
      show ?thesis
      proof (cases "stim_row d")
        case None
        then show ?thesis using True Cons "2.IH"(2)[OF _ Cons None] ok2 by simp
      next
        case (Some sm)
        obtain rec where r: "stim_draft sm = Inr rec" using stim_draft_ok[OF Some okd] by blast
        obtain r2 p ls3 where b: "body rec [] False ls2 = Inr (r2, p, ls3)" "length ls3 \<le> length ls2"
            "set ls3 \<subseteq> set ls2"
          using body_ok by blast
        have ok3: "list_all stages_ok ls3" using ok2 b(3) by (auto simp: list_all_iff)
        have "\<exists>rs. seek ls3 = Inr rs"
          using "2.IH"(3)[OF _ Cons Some r b(1) _ _ b(2)] True ok3 by simp
        then show ?thesis using True Cons Some r b by auto
      qed
    qed
  qed
qed

lemma candidates_skip:
  "dropWhile (\<lambda>l. is_blank l \<or> stim_hdr l) ls = [] \<Longrightarrow> data_line_candidates seen ls = []"
  by (induction ls arbitrary: seen) (auto split: if_splits)

lemma candidates_first:
  "dropWhile (\<lambda>l. is_blank l \<or> stim_hdr l) ls = d # ls2 \<Longrightarrow>
   data_line_candidates True ls = d # data_line_candidates False ls2"
  by (induction ls) (auto split: if_splits)

lemma seek_empty:
  "list_all (\<lambda>d. stim_row d = None) (data_line_candidates False ls) \<Longrightarrow> seek ls = Inr []"
proof (induction ls rule: seek.induct)
  case 1
  then show ?case by simp
next
  case (2 line ls)
  show ?case
  proof (cases "stim_hdr line")
    case False
    have "list_all (\<lambda>d. stim_row d = None) (data_line_candidates False ls)"
      using "2.prems" False by (simp split: if_splits)
    then show ?thesis using "2.IH"(1)[OF False] False by simp
  next
    case True
    show ?thesis
    proof (cases "dropWhile (\<lambda>l. is_blank l \<or> stim_hdr l) ls")
      case Nil
      show ?thesis using True by (simp add: Nil)
    next
      case (Cons d ls2)
      have c: "list_all (\<lambda>d. stim_row d = None) (d # data_line_candidates False ls2)"
        using "2.prems" True candidates_first[OF Cons] by simp
      then have n: "stim_row d = None" by simp
      show ?thesis using True Cons n c "2.IH"(2)[OF _ Cons n] by simp
    qed
  qed
qed


text \<open>The parser returns a list of records on every page none of whose data rows has a
  stage count of more than 4300 digits, and the empty list when every line that follows a
  header line, after blank lines and further headers, fails the row pattern.\<close>

lemma parse_stimulation_returns:
  "list_all stages_ok (splitlines page_text) \<Longrightarrow> \<exists>rs. parse_stimulation page_text = Inr rs"
  using seek_ok[of "splitlines page_text"] by (simp add: parse_stimulation_def)

lemma parse_stimulation_no_row:
  "list_all (\<lambda>d. stim_row d = None) (data_line_candidates False (splitlines page_text))
     \<Longrightarrow> parse_stimulation page_text = Inr []"
  using seek_empty[of "splitlines page_text"] by (simp add: parse_stimulation_def)

subsection \<open>The treatment lines of a record\<close>










subsection \<open>The first match of a pattern\<close>

lemma fm_seq:
  "first_match ic ml a s u \<Longrightarrow> first_match ic ml b u t \<Longrightarrow> first_match ic ml (Seq a b) s t"
  by (auto simp: first_match_def split: list.splits)

lemma fm_eps: "first_match ic ml Eps s s"
  by (simp add: first_match_def)

lemma fm_seqs:
  "first_match ic ml r s u \<Longrightarrow> first_match ic ml (seqs rs) u t
     \<Longrightarrow> first_match ic ml (seqs (r # rs)) s t"
proof (cases rs)
  case Nil
  assume "first_match ic ml r s u" "first_match ic ml (seqs rs) u t"
  then show ?thesis using Nil by (auto simp: first_match_def split: list.splits)
next
  case (Cons a as)
  assume "first_match ic ml r s u" "first_match ic ml (seqs rs) u t"
  then show ?thesis using Cons fm_seq by simp
qed

lemma fm_grp:
  assumes "first_match ic ml a \<lparr>prev = p, rest = xs @ ys, caps = cs\<rparr> \<lparr>prev = q, rest = ys, caps = cs2\<rparr>"
  shows "first_match ic ml (Grp n a) \<lparr>prev = p, rest = xs @ ys, caps = cs\<rparr>
           \<lparr>prev = q, rest = ys, caps = (n, xs) # cs2\<rparr>"
  using assms by (auto simp: first_match_def split: list.splits)

lemma takeWhile_run:
  "list_all P xs \<Longrightarrow> ys = [] \<or> \<not> P (hd ys) \<Longrightarrow> takeWhile P (xs @ ys) = xs"
  by (induction xs) (auto simp: takeWhile_eq_Nil_iff)

lemma upt_rev_head: "lo \<le> k \<Longrightarrow> rev [lo..<Suc k] = k # rev [lo..<k]"
  by simp

lemma fm_rep:
  assumes "\<forall>x\<in>set xs. cls_match ic c x" and "ys = [] \<or> \<not> cls_match ic c (hd ys)"
    and "lo \<le> length xs" and "case hi of None \<Rightarrow> True | Some h \<Rightarrow> length xs \<le> h"
  shows "first_match ic ml (Rep c lo hi) \<lparr>prev = p, rest = xs @ ys, caps = cs\<rparr>
           \<lparr>prev = (if xs = [] then p else Some (last xs)), rest = ys, caps = cs\<rparr>"
proof -
  have r: "run_len ic c hi (xs @ ys) = length xs"
    using takeWhile_run[of "cls_match ic c" xs ys] assms(1,2,4)
    by (simp add: run_len_def list_all_iff split: option.splits)
  have n: "xs \<noteq> [] \<Longrightarrow> (xs @ ys) ! (length xs - Suc 0) = last xs"
    by (simp add: nth_append last_conv_nth)
  show ?thesis
    using assms(3) n by (simp add: first_match_def r upt_rev_head advance_def del: upt_Suc)
qed

lemma fm_cls:
  "cls_match ic c x \<Longrightarrow>
   first_match ic ml (Cls c) \<lparr>prev = p, rest = x # ys, caps = cs\<rparr>
      \<lparr>prev = Some x, rest = ys, caps = cs\<rparr>"
  by (simp add: first_match_def)

lemma space_not_digit: "is_space c \<Longrightarrow> \<not> is_digit c"
  by (auto simp: is_space_def is_digit_def)

lemma next_not_digit:
  "list_all is_space w \<Longrightarrow> \<not> is_digit x \<Longrightarrow> w @ x # r = [] \<or> \<not> is_digit (hd (w @ x # r))"
  by (cases w) (auto simp: space_not_digit)

lemma cls_dig [simp]: "items_match False [Dig] c = is_digit c"
  by (simp add: items_match_def)

lemma cls_spc [simp]: "items_match False [Spc] c = is_space c"
  by (simp add: items_match_def)

lemma cls_dd [simp]: "items_match False [Dig, Ch CHR ''.''] c = (is_digit c \<or> c = CHR ''.'')"
  by (auto simp: items_match_def)

lemma fm_ws0:
  assumes "list_all is_space w" "\<not> is_space x"
  shows "first_match False ml ws0 \<lparr>prev = p, rest = w @ x # r, caps = cs\<rparr>
           \<lparr>prev = (if w = [] then p else Some (last w)), rest = x # r, caps = cs\<rparr>"
  unfolding ws0_def using assms by (intro fm_rep) (simp_all add: list_all_iff)

lemma dms_match:
  assumes d: "d \<noteq> []" "length d \<le> 3" "list_all is_digit d"
    and m: "m \<noteq> []" "length m \<le> 2" "list_all is_digit m"
    and sec: "sec \<noteq> []" "list_all (\<lambda>c. is_digit c \<or> c = CHR ''.'') sec"
    and w: "list_all is_space w1" "list_all is_space w2" "list_all is_space w3" "list_all is_space w4"
    and hc: "hc \<in> set ''NSEWnsew''"
  shows "\<exists>q. re_match False False DMS_RX
           (d @ w1 @ [CHR 0xB0] @ w2 @ m @ [CHR 0x27] @ w3 @ sec @ w4 @ [hc] @ aft)
         = Some \<lparr>prev = q, rest = aft, caps = [(4, [hc]), (3, sec), (2, m), (1, d)]\<rparr>"
proof -
  have hm: "is_digit (hd m)" "m = hd m # tl m" using m by (cases m; simp)+
  have hs: "\<not> is_space (hd sec)" "sec = hd sec # tl sec"
    using sec by (cases sec; auto simp: space_not_digit is_space_def cp_def)+
  have hcn: "\<not> is_space hc" "\<not> is_digit hc" "hc \<noteq> CHR ''.''"
    using hc by (auto simp: is_space_def is_digit_def cp_def)
  have deg: "\<not> is_digit (CHR 0xB0)" "\<not> is_space (CHR 0xB0)" "\<not> is_digit (CHR 0x27)"
    by (simp_all add: is_digit_def is_space_def cp_def)
  let ?r1 = "w1 @ CHR 0xB0 # w2 @ m @ CHR 0x27 # w3 @ sec @ w4 @ hc # aft"
  let ?r2 = "w2 @ m @ CHR 0x27 # w3 @ sec @ w4 @ hc # aft"
  let ?r3 = "CHR 0x27 # w3 @ sec @ w4 @ hc # aft"
  let ?r4 = "w4 @ hc # aft"
  have s1: "first_match False False (Grp 1 (Rep (Pos [Dig]) 1 (Some 3)))
      \<lparr>prev = None, rest = d @ ?r1, caps = []\<rparr>
      \<lparr>prev = Some (last d), rest = ?r1, caps = [(1, d)]\<rparr>"
    using d next_not_digit[OF w(1) deg(1)] fm_rep[where ic=False and c="Pos [Dig]" and xs=d and ys="?r1" and lo=1 and hi="Some 3"
        and ml=False and p=None and cs="[]"]
    by (intro fm_grp) (simp add: Suc_leI list_all_iff)
  obtain q1 where s2: "first_match False False ws0 \<lparr>prev = Some (last d), rest = ?r1, caps = [(1, d)]\<rparr>
      \<lparr>prev = q1, rest = CHR 0xB0 # ?r2, caps = [(1, d)]\<rparr>"
    using fm_ws0[OF w(1) deg(2)] by blast
  have s3: "first_match False False (lit [CHR 0xB0]) \<lparr>prev = q1, rest = CHR 0xB0 # ?r2, caps = [(1, d)]\<rparr>
      \<lparr>prev = Some (CHR 0xB0), rest = ?r2, caps = [(1, d)]\<rparr>"
    by (simp add: first_match_def items_match_def)
  obtain q2 where s4: "first_match False False ws0 \<lparr>prev = Some (CHR 0xB0), rest = ?r2, caps = [(1, d)]\<rparr>
      \<lparr>prev = q2, rest = m @ ?r3, caps = [(1, d)]\<rparr>"
    using fm_ws0[OF w(2), where x="hd m" and ml=False and p="Some (CHR 0xB0)" and r="tl m @ ?r3"
        and cs="[(1, d)]"] hm space_not_digit
    by (metis append_Cons)
  have s5: "first_match False False (Grp 2 (Rep (Pos [Dig]) 1 (Some 2)))
      \<lparr>prev = q2, rest = m @ ?r3, caps = [(1, d)]\<rparr>
      \<lparr>prev = Some (last m), rest = ?r3, caps = [(2, m), (1, d)]\<rparr>"
    using m deg(3) fm_rep[where ic=False and c="Pos [Dig]" and xs=m and ys="?r3" and lo=1 and hi="Some 2"
        and ml=False and p=q2 and cs="[(1, d)]"]
    by (intro fm_grp) (simp add: Suc_leI list_all_iff)
  have s6: "first_match False False (lit [CHR 0x27]) \<lparr>prev = Some (last m), rest = ?r3, caps = [(2, m), (1, d)]\<rparr>
      \<lparr>prev = Some (CHR 0x27), rest = w3 @ sec @ ?r4, caps = [(2, m), (1, d)]\<rparr>"
    by (simp add: first_match_def items_match_def)
  obtain q3 where s7: "first_match False False ws0
      \<lparr>prev = Some (CHR 0x27), rest = w3 @ sec @ ?r4, caps = [(2, m), (1, d)]\<rparr>
      \<lparr>prev = q3, rest = sec @ ?r4, caps = [(2, m), (1, d)]\<rparr>"
    using fm_ws0[OF w(3) hs(1), where ml=False and p="Some (CHR 0x27)" and r="tl sec @ ?r4"
        and cs="[(2, m), (1, d)]"] hs(2)
    by (metis append_Cons)
  have nx: "?r4 = [] \<or> \<not> cls_match False (Pos [Dig, Ch CHR ''.'']) (hd ?r4)"
    using w(4) hcn by (cases w4) (auto simp: space_not_digit is_space_def cp_def)
  have s8: "first_match False False (Grp 3 (Rep (Pos [Dig, Ch CHR ''.'']) 1 None))
      \<lparr>prev = q3, rest = sec @ ?r4, caps = [(2, m), (1, d)]\<rparr>
      \<lparr>prev = Some (last sec), rest = ?r4, caps = [(3, sec), (2, m), (1, d)]\<rparr>"
    using sec nx fm_rep[where ic=False and c="Pos [Dig, Ch CHR ''.'']" and xs=sec and ys="?r4" and lo=1
        and hi=None and ml=False and p=q3 and cs="[(2, m), (1, d)]"]
    by (intro fm_grp) (simp add: Suc_leI list_all_iff)
  obtain q4 where s9: "first_match False False ws0
      \<lparr>prev = Some (last sec), rest = ?r4, caps = [(3, sec), (2, m), (1, d)]\<rparr>
      \<lparr>prev = q4, rest = hc # aft, caps = [(3, sec), (2, m), (1, d)]\<rparr>"
    using fm_ws0[OF w(4) hcn(1)] by blast
  have s10: "first_match False False (Grp 4 (Cls (Pos [Ch CHR ''N'', Ch CHR ''S'', Ch CHR ''E'', Ch CHR ''W'',
                      Ch CHR ''n'', Ch CHR ''s'', Ch CHR ''e'', Ch CHR ''w''])))
      \<lparr>prev = q4, rest = [hc] @ aft, caps = [(3, sec), (2, m), (1, d)]\<rparr>
      \<lparr>prev = Some hc, rest = aft, caps = [(4, [hc]), (3, sec), (2, m), (1, d)]\<rparr>"
    using hc by (intro fm_grp) (auto simp: first_match_def items_match_def)
  have "first_match False False DMS_RX \<lparr>prev = None, rest = d @ ?r1, caps = []\<rparr>
      \<lparr>prev = Some hc, rest = aft, caps = [(4, [hc]), (3, sec), (2, m), (1, d)]\<rparr>"
    unfolding DMS_RX_def
    using s1 s2 s3 s4 s5 s6 s7 s8 s9 s10
    by (intro fm_seqs[OF s1] fm_seqs[OF s2] fm_seqs[OF s3] fm_seqs[OF s4] fm_seqs[OF s5] fm_seqs[OF s6]
          fm_seqs[OF s7] fm_seqs[OF s8] fm_seqs[OF s9]) simp
  then show ?thesis
    by (auto simp: first_match_def re_match_def re_match_at_def split: list.splits)
qed


lemma dir_upper:
  assumes "hc \<in> set ''NSEWnsew''"
  shows "(map to_upper [hc] = ''S'' \<or> map to_upper [hc] = ''W'')
     = (hc \<in> set ''SWsw'')"
proof -
  have u: "map to_upper ''NSEWnsew'' = ''NSEWNSEW''" by code_simp
  have "hc = CHR ''N'' \<or> hc = CHR ''S'' \<or> hc = CHR ''E'' \<or> hc = CHR ''W''
     \<or> hc = CHR ''n'' \<or> hc = CHR ''s'' \<or> hc = CHR ''e'' \<or> hc = CHR ''w''"
    using assms by simp
  then show ?thesis using u by (elim disjE) simp_all
qed

text \<open>
  C8, as stated, fails on its own examples: the strings of the specification carry the mark
  \<open>"\<close> after the seconds, which the pattern does not allow, and the conversion gives no
  value for them.
\<close>

theorem C8_seconds_mark_counterexample:
  "dms_to_decimal dms_marked_N = Inr None \<and> dms_to_decimal dms_marked_W = Inr None"
  by code_simp

text \<open>
  C8, amended: for every string that, stripped, begins with one to three digits, blanks, the
  degree sign, blanks, one or two digits, an apostrophe, blanks, a seconds number, blanks
  and a hemisphere letter, with no mark after the seconds, the result is the float sum
  \<open>degrees + minutes / 60 + seconds / 3600\<close>, negated exactly when the letter is S or W in
  either case, rounded to seven decimals; \<^verbatim>\<open>47\<degree> 30' 0 N\<close> gives 47.5 and \<^verbatim>\<open>101\<degree> 15' 0 W\<close>
  gives -101.25; with the mark \<open>"\<close> after the seconds there is no value.
\<close>

theorem C8_dms_conversion:
  assumes form: "strip s = d @ w1 @ [CHR 0xB0] @ w2 @ m @ [CHR 0x27] @ w3 @ sec @ w4 @ [hc] @ aft"
    and d: "d \<noteq> []" "length d \<le> 3" "list_all is_digit d"
    and m: "m \<noteq> []" "length m \<le> 2" "list_all is_digit m"
    and sec: "sec \<noteq> []" "list_all (\<lambda>c. is_digit c \<or> c = CHR ''.'') sec"
    and w: "list_all is_space w1" "list_all is_space w2" "list_all is_space w3"
      "list_all is_space w4"
    and hc: "hc \<in> set ''NSEWnsew''"
    and fl: "py_float d = Some D" "py_float m = Some M" "py_float sec = Some S"
  shows "dms_to_decimal s =
      Inr (Some (round7 (if hc \<in> set ''SWsw''
                         then fneg (fadd (fadd D (fdiv_pos M 60)) (fdiv_pos S 3600))
                         else fadd (fadd D (fdiv_pos M 60)) (fdiv_pos S 3600))))
    \<and> dms_to_decimal dms_plain_N = Inr (Some (Fin (95 / 2)))
    \<and> dms_to_decimal dms_plain_W = Inr (Some (Fin (- (405 / 4))))
    \<and> dms_to_decimal dms_marked_N = Inr None
    \<and> dms_to_decimal dms_marked_W = Inr None"
proof -
  obtain q where mt: "re_match False False DMS_RX (strip s)
      = Some \<lparr>prev = q, rest = aft, caps = [(4, [hc]), (3, sec), (2, m), (1, d)]\<rparr>"
    using dms_match[OF d m sec w hc, of aft] form by auto
  have g: "dms_to_decimal s =
      Inr (Some (round7 (if hc \<in> set ''SWsw''
                         then fneg (fadd (fadd D (fdiv_pos M 60)) (fdiv_pos S 3600))
                         else fadd (fadd D (fdiv_pos M 60)) (fdiv_pos S 3600))))"
    unfolding dms_to_decimal_def mt
    using dir_upper[OF hc] by (simp add: grp_def float_of_group_def fl Let_def)
  have e1: "dms_to_decimal dms_plain_N = Inr (Some (Fin (95 / 2)))" by code_simp
  have e2: "dms_to_decimal dms_plain_W = Inr (Some (Fin (- (405 / 4))))" by code_simp
  have e3: "dms_to_decimal dms_marked_N = Inr None" by code_simp
  have e4: "dms_to_decimal dms_marked_W = Inr None" by code_simp
  show ?thesis using g e1 e2 e3 e4 by (intro conjI)
qed

text \<open>C8 on \<^verbatim>\<open>47\<degree> 30' 0 N\<close>.\<close>

theorem C8_dms_conversion_witness:
  "strip dms_plain_N
     = ''47'' @ [] @ [CHR 0xB0] @ '' '' @ ''30'' @ [CHR 0x27] @ '' '' @ ''0'' @ '' ''
       @ [CHR ''N''] @ []
   \<and> py_float ''47'' = Some (Fin 47) \<and> py_float ''30'' = Some (Fin 30)
   \<and> py_float ''0'' = Some (Fin 0)
   \<and> round7 (fadd (fadd (Fin 47) (fdiv_pos (Fin 30) 60)) (fdiv_pos (Fin 0) 3600)) = Fin (95 / 2)
   \<and> dms_to_decimal dms_plain_N = Inr (Some (Fin (95 / 2)))"
proof -
  have form: "strip dms_plain_N
     = ''47'' @ [] @ [CHR 0xB0] @ '' '' @ ''30'' @ [CHR 0x27] @ '' '' @ ''0'' @ '' ''
       @ [CHR ''N''] @ []"
    by code_simp
  have f1: "py_float ''47'' = Some (Fin 47)" by code_simp
  have f2: "py_float ''30'' = Some (Fin 30)" by code_simp
  have f3: "py_float ''0'' = Some (Fin 0)" by code_simp
  have r: "round7 (fadd (fadd (Fin 47) (fdiv_pos (Fin 30) 60)) (fdiv_pos (Fin 0) 3600))
      = Fin (95 / 2)"
    by code_simp
  have sp: "list_all is_space '' ''" "list_all is_space []"
    by (simp_all add: is_space_def cp_def)
  have dg: "list_all is_digit ''47''" "list_all is_digit ''30''"
    "list_all (\<lambda>c. is_digit c \<or> c = CHR ''.'') ''0''"
    by (simp_all add: is_digit_def cp_def)
  have n: "CHR ''N'' \<in> set ''NSEWnsew''" by simp
  have ns: "(CHR ''N'' \<in> set ''SWsw'') = False" by simp
  have sz: "''47'' \<noteq> []" "length ''47'' \<le> 3" "''30'' \<noteq> []" "length ''30'' \<le> 2"
    "''0'' \<noteq> []"
    by simp_all
  from C8_dms_conversion[OF form sz(1) sz(2) dg(1) sz(3) sz(4) dg(2) sz(5) dg(3)
      sp(2) sp(1) sp(1) sp(1) n f1 f2 f3, THEN conjunct1]
  have "dms_to_decimal dms_plain_N = Inr (Some (Fin (95 / 2)))"
    unfolding ns if_False r .
  then show ?thesis using form f1 f2 f3 r by (intro conjI)
qed

subsection \<open>A stage count that is too long\<close>

lemma concat_map_concat2:
  "concat (map f (concat xss)) = concat (map (\<lambda>xs. concat (map f xs)) xss)"
  by (induction xss) simp_all

lemma rx_m_seqs_append:
  "pre \<noteq> [] \<Longrightarrow> post \<noteq> [] \<Longrightarrow>
   rx_m ic ml (seqs (pre @ post)) s = concat (map (rx_m ic ml (seqs post)) (rx_m ic ml (seqs pre) s))"
proof (induction pre arbitrary: s)
  case Nil
  then show ?case by simp
next
  case (Cons a pre)
  show ?case
  proof (cases pre)
    case Nil
    then show ?thesis using Cons.prems(2) by (cases post) simp_all
  next
    case (Cons b pre2)
    have e: "seqs (a # pre @ post) = Seq a (seqs (pre @ post))" using Cons by simp
    have e2: "seqs (a # pre) = Seq a (seqs pre)" using Cons by simp
    have ih: "\<And>u. rx_m ic ml (seqs (pre @ post)) u
        = concat (map (rx_m ic ml (seqs post)) (rx_m ic ml (seqs pre) u))"
      using Cons.IH Cons.prems(2) Cons by simp
    show ?thesis
      unfolding append_Cons e e2 rx_m.simps ih
      by (simp add: concat_map_concat2 comp_def)
  qed
qed

lemma row_prefix:
  assumes "is_digit d0"
  shows "rx_m False False (seqs [
     Grp 1 (seqs [Rep (Pos [Dig]) 1 (Some 2), lit ''/'', Rep (Pos [Dig]) 1 (Some 2), lit ''/'',
                  Rep (Pos [Dig]) 4 (Some 4)]),
     ws1,
     Grp 2 (Seq (Cls (Pos letter)) (RepLazy (Pos (letter @ [Ch CHR '' ''])) 1 (Some 30))),
     ws1, Grp 3 digs1, ws1, Grp 4 digs1, ws1])
     \<lparr>prev = None, rest = ''1/1/2020 Bakken 1 2 '' @ d0 # T, caps = []\<rparr>
   = [\<lparr>prev = Some CHR '' '', rest = d0 # T,
       caps = [(4, ''2''), (3, ''1''), (2, ''Bakken''), (1, ''1/1/2020'')]\<rparr>]"
proof -
  have n: "\<not> is_space d0" "\<not> (65 \<le> cp d0 \<and> cp d0 \<le> 90)" "\<not> (97 \<le> cp d0 \<and> cp d0 \<le> 122)"
    "d0 \<noteq> CHR '' ''"
    using assms by (auto simp: is_digit_def is_space_def cp_def)
  show ?thesis
    using assms n
    by (simp add: ws1_def digs1_def letter_def run_len_def advance_def items_match_def
        is_digit_def is_space_def cp_def)
qed


lemma row_suffix:
  assumes "list_all is_digit ds" "ds \<noteq> []"
  shows "first_match False False (seqs [Grp 5 digs1, ws1,
       Grp 6 (Rep (Pos [Dig, Ch CHR '','']) 1 None), ws1, Grp 7 (Rep (Pos letter) 1 None)])
     \<lparr>prev = p, rest = ds @ '' 5 Barrels'', caps = cs\<rparr>
     \<lparr>prev = Some CHR ''s'', rest = [], caps = (7, ''Barrels'') # (6, ''5'') # (5, ds) # cs\<rparr>"
proof -
  have n: "\<not> is_digit CHR '' ''" by (simp add: is_digit_def cp_def)
  have s1: "first_match False False (Grp 5 digs1)
      \<lparr>prev = p, rest = ds @ '' 5 Barrels'', caps = cs\<rparr>
      \<lparr>prev = Some (last ds), rest = '' 5 Barrels'', caps = (5, ds) # cs\<rparr>"
    unfolding digs1_def
    using assms n fm_rep[where ic=False and c="Pos [Dig]" and xs=ds and ys="'' 5 Barrels''" and lo=1
        and hi=None and ml=False and p=p and cs=cs]
    by (intro fm_grp) (simp add: Suc_leI list_all_iff)
  have s2: "first_match False False (seqs [ws1,
       Grp 6 (Rep (Pos [Dig, Ch CHR '','']) 1 None), ws1, Grp 7 (Rep (Pos letter) 1 None)])
      \<lparr>prev = Some (last ds), rest = '' 5 Barrels'', caps = (5, ds) # cs\<rparr>
      \<lparr>prev = Some CHR ''s'', rest = [], caps = (7, ''Barrels'') # (6, ''5'') # (5, ds) # cs\<rparr>"
    by (simp add: first_match_def ws1_def letter_def run_len_def advance_def items_match_def
        is_digit_def is_space_def cp_def)
  show ?thesis by (rule fm_seqs[OF s1 s2])
qed

lemma long_row_match:
  assumes "list_all is_digit ds" "ds \<noteq> []"
  shows "stim_row (''1/1/2020 Bakken 1 2 '' @ ds @ '' 5 Barrels'')
     = Some \<lparr>prev = Some CHR ''s'', rest = [],
         caps = [(7, ''Barrels''), (6, ''5''), (5, ds), (4, ''2''), (3, ''1''),
                 (2, ''Bakken''), (1, ''1/1/2020'')]\<rparr>"
proof -
  obtain d0 dt where ds: "ds = d0 # dt" using assms(2) by (cases ds) auto
  have d0: "is_digit d0" using assms(1) ds by simp
  let ?pre = "[Grp 1 (seqs [Rep (Pos [Dig]) 1 (Some 2), lit ''/'', Rep (Pos [Dig]) 1 (Some 2), lit ''/'',
                  Rep (Pos [Dig]) 4 (Some 4)]),
     ws1,
     Grp 2 (Seq (Cls (Pos letter)) (RepLazy (Pos (letter @ [Ch CHR '' ''])) 1 (Some 30))),
     ws1, Grp 3 digs1, ws1, Grp 4 digs1, ws1]"
  let ?post = "[Grp 5 digs1, ws1,
       Grp 6 (Rep (Pos [Dig, Ch CHR '','']) 1 None), ws1, Grp 7 (Rep (Pos letter) 1 None)]"
  let ?s0 = "\<lparr>prev = None, rest = ''1/1/2020 Bakken 1 2 '' @ ds @ '' 5 Barrels'', caps = []\<rparr>"
  let ?t = "\<lparr>prev = Some CHR ''s'', rest = [],
         caps = [(7, ''Barrels''), (6, ''5''), (5, ds), (4, ''2''), (3, ''1''),
                 (2, ''Bakken''), (1, ''1/1/2020'')]\<rparr>"
  have e: "STIM_ROW = seqs (?pre @ ?post)" by (simp add: STIM_ROW_def)
  have ne: "?pre \<noteq> []" "?post \<noteq> []" by simp_all
  have p: "rx_m False False (seqs ?pre) ?s0
      = [\<lparr>prev = Some CHR '' '', rest = ds @ '' 5 Barrels'',
          caps = [(4, ''2''), (3, ''1''), (2, ''Bakken''), (1, ''1/1/2020'')]\<rparr>]"
    using row_prefix[OF d0, of "dt @ '' 5 Barrels''"] by (simp add: ds)
  have "rx_m False False STIM_ROW ?s0
      = rx_m False False (seqs ?post) \<lparr>prev = Some CHR '' '', rest = ds @ '' 5 Barrels'',
          caps = [(4, ''2''), (3, ''1''), (2, ''Bakken''), (1, ''1/1/2020'')]\<rparr>"
    unfolding e rx_m_seqs_append[OF ne] p by (simp only: list.map concat.simps append_Nil2)
  then have "first_match False False STIM_ROW ?s0 ?t"
    using row_suffix[OF assms, of "Some CHR '' ''" "[(4, ''2''), (3, ''1''), (2, ''Bakken''), (1, ''1/1/2020'')]"]
    by (simp add: first_match_def)
  then have "re_match_at False False STIM_ROW None (''1/1/2020 Bakken 1 2 '' @ ds @ '' 5 Barrels'') = Some ?t"
    by (auto simp: first_match_def re_match_at_def split: list.splits)
  then show ?thesis by (simp add: stim_row_def re_search_def)
qed


lemma splitlines_from_plain:
  "list_all (\<lambda>c. \<not> is_linebreak c) l \<Longrightarrow> l \<noteq> [] \<Longrightarrow> splitlines_from cur l = [rev cur @ l]"
  by (induction cur l rule: splitlines_from.induct) (auto simp: is_linebreak_def)

lemma splitlines_from_lf:
  "list_all (\<lambda>c. \<not> is_linebreak c) h \<Longrightarrow> l \<noteq> [] \<Longrightarrow>
   splitlines_from cur (h @ CHR 0x0A # l) = (rev cur @ h) # splitlines_from [] l"
proof (induction h arbitrary: cur)
  case Nil
  then show ?case by (cases l) (simp_all add: is_linebreak_def cp_def)
next
  case (Cons c h)
  have n: "\<not> is_linebreak c" "cp c \<noteq> 13" using Cons.prems(1) by (auto simp: is_linebreak_def)
  obtain d cs where e: "h @ CHR 0x0A # l = d # cs" by (cases h) auto
  show ?case using Cons.IH[of "c # cur"] Cons.prems n
    unfolding append_Cons e by (simp add: e)
qed

lemma digit_no_break: "is_digit c \<Longrightarrow> \<not> is_linebreak c"
  by (auto simp: is_digit_def is_linebreak_def)

lemma no_hdr:
  "\<forall>c\<in>set l. \<not> cls_match True (Pos [Ch CHR ''D'']) c \<Longrightarrow> search_from True False STIM_HDR p l = None"
  by (induction l arbitrary: p) (simp_all add: STIM_HDR_def re_match_at_def)

lemma digit_not_D: "is_digit c \<Longrightarrow> \<not> cls_match True (Pos [Ch CHR ''D'']) c"
  by (auto simp: is_digit_def items_match_def to_lower_def to_upper_def is_upper_def is_lower_def cp_def)

lemma long_page_raises:
  assumes ds: "list_all is_digit ds" and len: "4300 < length ds"
  shows "parse_stimulation (''Date Stimulated'' @ [CHR 0x0A] @ ''1/1/2020 Bakken 1 2 '' @ ds @ '' 5 Barrels'')
     = Inl ValueError"
proof -
  let ?d = "''1/1/2020 Bakken 1 2 '' @ ds @ '' 5 Barrels''"
  let ?sm = "\<lparr>prev = Some CHR ''s'', rest = [],
         caps = [(7, ''Barrels''), (6, ''5''), (5, ds), (4, ''2''), (3, ''1''),
                 (2, ''Bakken''), (1, ''1/1/2020'')]\<rparr>"
  have ne: "ds \<noteq> []" using len by auto
  have a: "list_all (\<lambda>c. \<not> is_linebreak c) ''Date Stimulated''" by code_simp
  have b: "list_all (\<lambda>c. \<not> is_linebreak c) ''1/1/2020 Bakken 1 2 ''"
    "list_all (\<lambda>c. \<not> is_linebreak c) '' 5 Barrels''" by code_simp+
  have "list_all (\<lambda>c. \<not> is_linebreak c) ds"
    using ds by (simp add: list_all_iff digit_no_break)
  then have pl: "list_all (\<lambda>c. \<not> is_linebreak c) ?d"
    using b by (simp only: list_all_append simp_thms)
  have sl: "splitlines (''Date Stimulated'' @ [CHR 0x0A] @ ?d) = [''Date Stimulated'', ?d]"
    unfolding splitlines_def using splitlines_from_lf[OF a, of ?d "[]"] splitlines_from_plain[OF pl, of "[]"]
    by simp
  have h: "stim_hdr ''Date Stimulated''" by code_simp
  have c: "list_all (\<lambda>c. \<not> cls_match True (Pos [Ch CHR ''D'']) c) ''1/1/2020 Bakken 1 2 ''"
    "list_all (\<lambda>c. \<not> cls_match True (Pos [Ch CHR ''D'']) c) '' 5 Barrels''" by code_simp+
  have "list_all (\<lambda>c. \<not> cls_match True (Pos [Ch CHR ''D'']) c) ds"
    using ds digit_not_D by (simp add: list_all_iff)
  then have "list_all (\<lambda>c. \<not> cls_match True (Pos [Ch CHR ''D'']) c) ?d"
    using c by (simp only: list_all_append simp_thms)
  then have "\<forall>c\<in>set ?d. \<not> cls_match True (Pos [Ch CHR ''D'']) c"
    unfolding list_all_iff .
  then have sf: "search_from True False STIM_HDR None ?d = None" by (rule no_hdr)
  have nh: "\<not> stim_hdr ?d" unfolding stim_hdr_def re_search_def sf by simp
  have nb: "\<not> is_blank ?d"
    by (simp add: is_blank_def strip_def is_space_def cp_def)
  have m: "stim_row ?d = Some ?sm" by (rule long_row_match[OF ds ne])
  have dr: "stim_draft ?sm = Inl ValueError"
    using len by (simp add: stim_draft_def grp_def py_int_def)
  have "seek [''Date Stimulated'', ?d] = Inl ValueError"
    using h nh nb m dr by (simp del: append_Cons Cons_eq_append_conv)
  then show ?thesis unfolding parse_stimulation_def sl .
qed

text \<open>
  C5 fails on the totality: on the page with a header line and the data row
  \<^verbatim>\<open>1/1/2020 Bakken 1 2 1...1 5 Barrels\<close>, whose stage count has 4301 digits, the row pattern
  matches and \<^verbatim>\<open>int\<close> of the stage count raises a ValueError, which nothing catches.
\<close>

theorem C5_long_stage_count: "parse_stimulation page_long = Inl ValueError"
  unfolding page_long_def long_row_def
  by (rule long_page_raises) (simp_all add: list_all_iff is_digit_def cp_def)

subsection \<open>The upsert on an existing key\<close>

lemma upsert_existing:
  assumes a: "lookup_well rows (api_number e) = Some old"
  shows "lookup_well (upsert_well rows e) (api_number e) = Some (do_update old e)"
proof -
  have ex: "list_ex (\<lambda>r. api_number r = api_number e) rows"
    using a by (auto simp: lookup_well_def list_ex_iff find_Some_iff)
  have f: "find (\<lambda>r. api_number r = api_number e) rs = Some old \<Longrightarrow>
     find (\<lambda>r. api_number r = api_number e)
       (map (\<lambda>r. if api_number r = api_number e then do_update r e else r) rs)
      = Some (do_update old e)" for rs
    by (induction rs) (auto simp: do_update_def)
  show ?thesis using a ex f[of rows]
    by (simp add: lookup_well_def upsert_well_def)
qed

lemma text_length_no_nul: "\<not> list_ex (\<lambda>c. cp c = 0) s \<Longrightarrow> text_length s = length s"
  by (induction s) (simp_all add: text_length_def)

lemma example_lookup:
  "lookup_well [stored_example] (api_number incoming_example) = Some stored_example"
  by (simp add: lookup_well_def stored_example_def incoming_example_def)

text \<open>
  C1, as stated, fails for \<^verbatim>\<open>pdf_filename\<close>: the stored row has no file name, the incoming
  one has, and after the upsert the stored file name is still NULL, where the claim has the
  incoming value taken.
\<close>

theorem C1_pdf_filename_counterexample:
  "lookup_well [stored_example] (api_number incoming_example) = Some stored_example
   \<and> pdf_filename stored_example = None
   \<and> map_option pdf_filename
        (lookup_well (upsert_well [stored_example] incoming_example) (api_number incoming_example))
      \<noteq> Some (coalesce (pdf_filename stored_example) (pdf_filename incoming_example))"
  by (simp add: lookup_well_def upsert_well_def do_update_def coalesce_def
      stored_example_def incoming_example_def)

text \<open>
  C1, amended: on a write whose key is already stored, \<^verbatim>\<open>well_name\<close> becomes the incoming
  value exactly when that value is not NULL and strictly longer (by SQLite's LENGTH) than
  the stored one, a stored NULL counting as the empty text; each of \<^verbatim>\<open>well_number\<close>,
  \<^verbatim>\<open>operator\<close>, \<^verbatim>\<open>county\<close>, \<^verbatim>\<open>shl_desc\<close>, \<^verbatim>\<open>latitude\<close>, \<^verbatim>\<open>longitude\<close> and \<^verbatim>\<open>datum\<close> keeps
  its stored value when that is not NULL and takes the incoming one otherwise; and
  \<^verbatim>\<open>pdf_filename\<close> keeps its stored value in every case.
\<close>

theorem C1_merge_policy:
  assumes "lookup_well rows (api_number e) = Some old"
  shows "\<exists>new. lookup_well (upsert_well rows e) (api_number e) = Some new
    \<and> well_name new =
        (if \<exists>n. well_name e = Some n
               \<and> text_length n > text_length (case well_name old of None \<Rightarrow> [] | Some m \<Rightarrow> m)
         then well_name e else well_name old)
    \<and> well_number new = (case well_number old of Some v \<Rightarrow> Some v | None \<Rightarrow> well_number e)
    \<and> operator new = (case operator old of Some v \<Rightarrow> Some v | None \<Rightarrow> operator e)
    \<and> county new = (case county old of Some v \<Rightarrow> Some v | None \<Rightarrow> county e)
    \<and> shl_desc new = (case shl_desc old of Some v \<Rightarrow> Some v | None \<Rightarrow> shl_desc e)
    \<and> latitude new = (case latitude old of Some v \<Rightarrow> Some v | None \<Rightarrow> latitude e)
    \<and> longitude new = (case longitude old of Some v \<Rightarrow> Some v | None \<Rightarrow> longitude e)
    \<and> datum new = (case datum old of Some v \<Rightarrow> Some v | None \<Rightarrow> datum e)
    \<and> pdf_filename new = pdf_filename old"
proof -
  have wn: "well_name (do_update old e) =
        (if \<exists>n. well_name e = Some n
               \<and> text_length n > text_length (case well_name old of None \<Rightarrow> [] | Some m \<Rightarrow> m)
         then well_name e else well_name old)"
    by (cases "well_name e"; cases "well_name old")
       (simp_all add: do_update_def sql_gt_true_def sql_length_def coalesce_def)
  show ?thesis
    using upsert_existing[OF assms] wn by (simp add: do_update_def coalesce_def)
qed

text \<open>C1, the merge example of the specification: the operator \<open>Acme Oil\<close> stays against an
  incoming NULL, and the name \<open>WELL A\<close> gives way to the longer \<open>WELL A UNIT 2\<close>.\<close>

theorem C1_merge_policy_witness:
  "lookup_well [stored_example] (api_number incoming_example) = Some stored_example
   \<and> (\<exists>new. lookup_well (upsert_well [stored_example] incoming_example)
               (api_number incoming_example) = Some new
        \<and> well_name new = Some ''WELL A UNIT 2''
        \<and> operator new = Some ''Acme Oil''
        \<and> county new = Some ''Mckenzie''
        \<and> pdf_filename new = None)"
  using C1_merge_policy[OF example_lookup]
  by (simp add: example_lookup) (auto simp: stored_example_def incoming_example_def text_length_def cp_def)

text \<open>
  C10: on an upsert whose key is already stored, the columns \<^verbatim>\<open>api_number\<close>, \<^verbatim>\<open>state\<close> and
  \<^verbatim>\<open>pdf_filename\<close> of the stored row are left as they were, whatever the incoming row holds
  and also where the stored value is NULL.
\<close>

theorem C10_frame:
  assumes "lookup_well rows (api_number e) = Some old"
  shows "\<exists>new. lookup_well (upsert_well rows e) (api_number e) = Some new
    \<and> api_number new = api_number old \<and> state new = state old
    \<and> pdf_filename new = pdf_filename old"
  using upsert_existing[OF assms] by (simp add: do_update_def)

text \<open>C10 on the example rows: the stored state and file name are NULL, the incoming ones are
  not, and both stay NULL.\<close>

theorem C10_frame_witness:
  "lookup_well [stored_example] (api_number incoming_example) = Some stored_example
   \<and> (\<exists>new. lookup_well (upsert_well [stored_example] incoming_example)
               (api_number incoming_example) = Some new
        \<and> api_number new = ''33-053-01234'' \<and> state new = None \<and> pdf_filename new = None)"
  using C10_frame[OF example_lookup]
  by (simp add: example_lookup) (auto simp: stored_example_def)

subsection \<open>API normalisation\<close>

text \<open>
  C2, as stated, fails below eight digits: the candidate \<open>1234567\<close> has no letter and seven
  digits, and the result is \<open>None\<close>, not the stripped string.
\<close>

theorem C2_short_counterexample:
  "\<not> list_ex is_alpha (api_candidate ''1234567'')
   \<and> length (api_digits ''1234567'') \<noteq> 10 \<and> length (api_digits ''1234567'') \<noteq> 14
   \<and> normalize_api ''1234567'' \<noteq> Some (api_candidate ''1234567'')"
  by (simp add: normalize_api_def api_candidate_def api_digits_def re_sub_del_def strip_def
      is_alpha_def is_space_def is_digit_def cp_def)

text \<open>
  C2, amended: for a raw string whose whitespace-stripped form has no letter and whose digit
  count is neither 10 nor 14, the result is the whitespace-stripped string unmodified when
  there are at least eight digits, and \<open>None\<close> when there are fewer than eight.
\<close>

theorem C2_other_lengths:
  assumes "\<not> list_ex is_alpha (api_candidate raw)"
    and "length (api_digits raw) \<noteq> 10" and "length (api_digits raw) \<noteq> 14"
  shows "normalize_api raw =
     (if length (api_digits raw) < 8 then None else Some (re_sub_del is_space raw))"
  using assms
  by (simp add: normalize_api_def api_candidate_def[symmetric] api_digits_def[symmetric]
      Let_def api_candidate_eq)

text \<open>C2 on a nine-digit candidate with blanks, and on a seven-digit one.\<close>

theorem C2_other_lengths_witness:
  "\<not> list_ex is_alpha (api_candidate ''33 053 0123'')
   \<and> length (api_digits ''33 053 0123'') \<noteq> 10 \<and> length (api_digits ''33 053 0123'') \<noteq> 14
   \<and> normalize_api ''33 053 0123'' = Some ''330530123''
   \<and> normalize_api ''1234567'' = None"
proof -
  have a: "\<not> list_ex is_alpha (api_candidate ''33 053 0123'')"
    by (simp add: api_candidate_def re_sub_del_def strip_def is_alpha_def is_space_def cp_def)
  have b: "length (api_digits ''33 053 0123'') = 9"
    by (simp add: api_digits_def re_sub_del_def is_digit_def cp_def)
  have c: "\<not> list_ex is_alpha (api_candidate ''1234567'')"
    by (simp add: api_candidate_def re_sub_del_def strip_def is_alpha_def is_space_def cp_def)
  have d: "length (api_digits ''1234567'') = 7"
    by (simp add: api_digits_def re_sub_del_def is_digit_def cp_def)
  have e: "re_sub_del is_space ''33 053 0123'' = ''330530123''"
    by (simp add: re_sub_del_def is_space_def cp_def)
  show ?thesis
    using C2_other_lengths[OF a] C2_other_lengths[OF c] a b d e by simp
qed

text \<open>
  C7: for a raw string whose whitespace-stripped form has no letter and whose digit sequence
  \<open>D\<close> has exactly 10 digits, the result is \<open>D[0:2]-D[2:5]-D[5:10]\<close>; with exactly 14 digits it
  is \<open>D[0:2]-D[2:5]-D[5:10]-D[10:12]-D[12:14]\<close>; and in both cases normalising the result
  again returns it unchanged.
\<close>

theorem C7_canonical:
  assumes na: "\<not> list_ex is_alpha (api_candidate raw)"
  shows "(length (api_digits raw) = 10 \<longrightarrow>
       normalize_api raw = Some (slice 0 2 (api_digits raw) @ ''-'' @ slice 2 5 (api_digits raw)
          @ ''-'' @ slice 5 10 (api_digits raw)))
    \<and> (length (api_digits raw) = 14 \<longrightarrow>
       normalize_api raw = Some (slice 0 2 (api_digits raw) @ ''-'' @ slice 2 5 (api_digits raw)
          @ ''-'' @ slice 5 10 (api_digits raw) @ ''-'' @ slice 10 12 (api_digits raw)
          @ ''-'' @ slice 12 14 (api_digits raw)))
    \<and> (length (api_digits raw) = 10 \<or> length (api_digits raw) = 14 \<longrightarrow>
       (\<exists>c. normalize_api raw = Some c \<and> normalize_api c = Some c))"
proof -
  define d where "d = api_digits raw"
  have dd: "list_all is_digit d" by (simp add: d_def api_digits_all)
  note sl = all_digit_slice[OF dd] all_digit_drop[OF dd]
  have n10: "length d = 10 \<Longrightarrow>
      normalize_api raw = Some (slice 0 2 d @ ''-'' @ slice 2 5 d @ ''-'' @ slice 5 10 d)"
    using na by (simp add: normalize_api_def api_candidate_def api_digits_def d_def Let_def)
  have n14: "length d = 14 \<Longrightarrow>
      normalize_api raw = Some (slice 0 2 d @ ''-'' @ slice 2 5 d @ ''-'' @ slice 5 10 d
         @ ''-'' @ slice 10 12 d @ ''-'' @ slice 12 14 d)"
    using na
    by (simp add: normalize_api_def api_candidate_def api_digits_def d_def Let_def slice_def)
  have i10: "normalize_api c = Some c"
    if l: "length d = 10" and c: "c = slice 0 2 d @ ''-'' @ slice 2 5 d @ ''-'' @ slice 5 10 d"
    for c
  proof -
    have dg: "api_digits c = d"
      using slices10[OF l] sl
      by (simp add: api_digits_def re_sub_del_def c dash_class filter_digits_id)
    have sp: "re_sub_del is_space c = c"
      using sl by (simp add: re_sub_del_def c dash_class filter_space_digits)
    have al: "\<not> list_ex is_alpha c"
      using sl no_alpha_digits by (simp add: c dash_class)
    have cand: "api_candidate c = c" by (simp add: api_candidate_eq sp)
    show ?thesis using al cand dg l c
      by (simp add: normalize_api_def Let_def api_candidate_def[symmetric]
          api_digits_def[symmetric])
  qed
  have i14: "normalize_api c = Some c"
    if l: "length d = 14"
      and c: "c = slice 0 2 d @ ''-'' @ slice 2 5 d @ ''-'' @ slice 5 10 d
                @ ''-'' @ slice 10 12 d @ ''-'' @ slice 12 14 d"
    for c
  proof -
    have e: "slice 12 14 d = drop 12 d" using l by (simp add: slice_def)
    have dg: "api_digits c = d"
      using slices14[of d] sl
      by (simp add: api_digits_def re_sub_del_def c dash_class filter_digits_id e)
    have sp: "re_sub_del is_space c = c"
      using sl by (simp add: re_sub_del_def c dash_class filter_space_digits)
    have al: "\<not> list_ex is_alpha c"
      using sl no_alpha_digits by (simp add: c dash_class)
    have cand: "api_candidate c = c" by (simp add: api_candidate_eq sp)
    show ?thesis using al cand dg l c e
      by (simp add: normalize_api_def Let_def api_candidate_def[symmetric]
          api_digits_def[symmetric])
  qed
  show ?thesis using n10 n14 i10 i14 unfolding d_def[symmetric] by auto
qed

text \<open>C7 on a 10-digit and a 14-digit candidate, and on the canonical strings they give.\<close>

theorem C7_canonical_witness:
  "\<not> list_ex is_alpha (api_candidate ''33 053 01234'')
   \<and> normalize_api ''33 053 01234'' = Some ''33-053-01234''
   \<and> normalize_api ''33-053-01234'' = Some ''33-053-01234''
   \<and> normalize_api ''33053012340000'' = Some ''33-053-01234-00-00''
   \<and> normalize_api ''33-053-01234-00-00'' = Some ''33-053-01234-00-00''"
proof -
  have a: "\<not> list_ex is_alpha (api_candidate ''33 053 01234'')"
    by (simp add: api_candidate_def re_sub_del_def strip_def is_alpha_def is_space_def cp_def)
  have b: "api_digits ''33 053 01234'' = ''3305301234''"
    by (simp add: api_digits_def re_sub_del_def is_digit_def cp_def)
  have c: "\<not> list_ex is_alpha (api_candidate ''33053012340000'')"
    by (simp add: api_candidate_def re_sub_del_def strip_def is_alpha_def is_space_def cp_def)
  have d: "api_digits ''33053012340000'' = ''33053012340000''"
    by (simp add: api_digits_def re_sub_del_def is_digit_def cp_def)
  show ?thesis
    using C7_canonical[OF a] C7_canonical[OF c] a
    by (auto simp: b d slice_def)
qed

subsection \<open>Coordinate bounds\<close>

text \<open>
  C6: a latitude outside \<open>[45, 50]\<close> is discarded (the result is absent, neither clamped nor a
  stand-in value) and one inside is kept; a longitude in \<open>[96, 105]\<close> is negated; a longitude
  in neither \<open>[96, 105]\<close> nor \<open>[-105, -96]\<close> is discarded, and one in \<open>[-105, -96]\<close> is kept;
  an infinite or undefined value is discarded; 101.5 becomes -101.5 and the longitude 47.0
  is discarded.
\<close>

theorem C6_coordinate_bands:
  "latitude_check (Some (Fin x)) = (if 45 \<le> x \<and> x \<le> 50 then Some (Fin x) else None)
   \<and> (96 \<le> y \<and> y \<le> 105 \<longrightarrow> longitude_check (Some (Fin y)) = Some (Fin (- y)))
   \<and> (\<not> (96 \<le> y \<and> y \<le> 105) \<and> \<not> (- 105 \<le> y \<and> y \<le> - 96)
        \<longrightarrow> longitude_check (Some (Fin y)) = None)
   \<and> (- 105 \<le> y \<and> y \<le> - 96 \<longrightarrow> longitude_check (Some (Fin y)) = Some (Fin y))
   \<and> (v = PInf \<or> v = NInf \<or> v = NaN
        \<longrightarrow> latitude_check (Some v) = None \<and> longitude_check (Some v) = None)
   \<and> longitude_check (Some (Fin 101.5)) = Some (Fin (- 101.5))
   \<and> longitude_check (Some (Fin 47.0)) = None"
  by (auto simp: latitude_check_def longitude_check_def)

text \<open>C6 at the latitude 51 and the longitudes 101.5, 47 and -103.\<close>

theorem C6_coordinate_bands_witness:
  "latitude_check (Some (Fin 51)) = None
   \<and> (96 \<le> (101.5::rat) \<and> (101.5::rat) \<le> 105)
   \<and> longitude_check (Some (Fin 101.5)) = Some (Fin (- 101.5))
   \<and> longitude_check (Some (Fin 47)) = None
   \<and> longitude_check (Some (Fin (- 103))) = Some (Fin (- 103))
   \<and> latitude_check (Some PInf) = None"
  using C6_coordinate_bands[of 51 "101.5" PInf] C6_coordinate_bands[of 51 47 PInf]
    C6_coordinate_bands[of 51 "- 103" PInf]
  by simp

end
